theory Spec2Isabelle
  imports Complex_Main "HOL-Library.Word"
begin

unbundle bit_operations_syntax

section \<open>Machine integers\<close>

text \<open>
  The program is built for LP64 Linux: \<open>int\<close> has 32 bits, \<open>size_t\<close> is unsigned with
  64 bits, \<open>off_t\<close> is signed with 64 bits. Values are HOL integers; every place where the
  C code converts to one of these types, or computes in it, applies the wrap-around of
  that type.
\<close>

definition to_int :: "int \<Rightarrow> int" where
  "to_int x = (x + 2 ^ 31) mod 2 ^ 32 - 2 ^ 31"

definition to_size_t :: "int \<Rightarrow> int" where
  "to_size_t x = x mod 2 ^ 64"

definition to_off_t :: "int \<Rightarrow> int" where
  "to_off_t x = (x + 2 ^ 63) mod 2 ^ 64 - 2 ^ 63"

text \<open>\<^verbatim>\<open>#define N_PAGES_IN_WINDOW (32 * 1024)\<close>\<close>

definition N_PAGES_IN_WINDOW :: int where
  "N_PAGES_IN_WINDOW = 32 * 1024"

text \<open>The values of \<open>errno.h\<close> and \<open>stdlib.h\<close> on Linux.\<close>

definition EINVAL :: int where
  "EINVAL = 22"

definition EXIT_SUCCESS :: int where
  "EXIT_SUCCESS = 0"

definition EXIT_FAILURE :: int where
  "EXIT_FAILURE = 1"

section \<open>The operating system and the program state\<close>

type_synonym byte = "8 word"

text \<open>
  A file descriptor is identified with the path it was opened from, and a window (the
  address \<open>mmap\<close> returns) with the descriptor and file offset it maps.
\<close>

type_synonym fd = string
type_synonym window = "fd \<times> int"

text \<open>
  What the kernel answers. \<open>open_errno\<close>, \<open>fstat_errno\<close>, \<open>mmap_errno\<close> and
  \<open>mincore_errno\<close> give the error code of a failing call (\<open>None\<close>: the call succeeds);
  \<open>page_byte\<close> is the byte \<open>mincore\<close> stores for a page of a file, whose least
  significant bit says that the page is resident. \<open>stderr_errno\<close> is the error code of a
  failing write to stderr (\<open>None\<close>: stderr can be written).
\<close>

record os =
  PAGE_SIZE :: int
  open_errno :: "string \<Rightarrow> int option"
  fstat_errno :: "fd \<Rightarrow> int option"
  st_size :: "fd \<Rightarrow> int"
  mmap_errno :: "fd \<Rightarrow> int \<Rightarrow> int \<Rightarrow> int option"
  mincore_errno :: "fd \<Rightarrow> int \<Rightarrow> int \<Rightarrow> int option"
  page_byte :: "fd \<Rightarrow> int \<Rightarrow> byte"
  stderr_errno :: "int option"

datatype event =
    Mmap int int
  | Mincore int int
  | Munmap int int
  | Warn string string

datatype line =
    Count int "int option" string
  | Failed string

datatype fault = DivisionByZero | VecOutOfBounds

text \<open>
  \<open>vec\<close> is the static array of \<open>do_mincore\<close>, which lives across calls; \<open>trace\<close> lists
  the mapping calls and the calls of \<open>warn\<close>, \<open>stdout\<close> the report lines,
  both oldest first.
\<close>

record state =
  vec :: "int \<Rightarrow> byte"
  errno :: int
  trace :: "event list"
  stdout :: "line list"

definition init_state :: state where
  "init_state = \<lparr>vec = (\<lambda>_. 0), errno = 0, trace = [], stdout = []\<rparr>"

text \<open>
  \<open>warn\<close> of the C library writes a message to stderr. When the write succeeds \<open>errno\<close>
  is as before; when it fails, \<open>errno\<close> holds the error code of the write afterwards.
\<close>

definition warn :: "os \<Rightarrow> string \<Rightarrow> string \<Rightarrow> state \<Rightarrow> state" where
  "warn os msg name s =
     s\<lparr>trace := trace s @ [Warn msg name],
       errno := (case stderr_errno os of None \<Rightarrow> errno s | Some e \<Rightarrow> e)\<rparr>"

text \<open>\<open>mmap(window, len, PROT_NONE, MAP_PRIVATE, fd, file_offset)\<close>; \<open>None\<close> is \<open>MAP_FAILED\<close>.\<close>

definition mmap :: "os \<Rightarrow> int \<Rightarrow> fd \<Rightarrow> int \<Rightarrow> state \<Rightarrow> window option \<times> state" where
  "mmap os len fd file_offset s =
     (let s1 = s\<lparr>trace := trace s @ [Mmap len file_offset]\<rparr> in
      case mmap_errno os fd len file_offset of
        Some e \<Rightarrow> (None, s1\<lparr>errno := e\<rparr>)
      | None \<Rightarrow> (Some (fd, file_offset), s1))"

definition munmap :: "window \<Rightarrow> int \<Rightarrow> state \<Rightarrow> state" where
  "munmap window len s = s\<lparr>trace := trace s @ [Munmap (snd window) len]\<rparr>"

text \<open>
  \<open>mincore(window, len, vec)\<close>: the kernel stores one byte for each of the
  \<open>(len + PAGE_SIZE - 1) / PAGE_SIZE\<close> pages of the range into \<open>vec\<close>, an array of \<open>npw\<close>
  bytes; storing more than the array holds is a fault.
\<close>

definition mincore :: "int \<Rightarrow> os \<Rightarrow> window \<Rightarrow> int \<Rightarrow> state \<Rightarrow> fault + int \<times> state" where
  "mincore npw os window len s =
     (let s1 = s\<lparr>trace := trace s @ [Mincore (snd window) len]\<rparr> in
      case mincore_errno os (fst window) (snd window) len of
        Some e \<Rightarrow> Inr (- 1, s1\<lparr>errno := e\<rparr>)
      | None \<Rightarrow>
          let pages = (len + PAGE_SIZE os - 1) div PAGE_SIZE os in
          if pages > npw then Inl VecOutOfBounds
          else Inr (0, s1\<lparr>vec := (\<lambda>i. if 0 \<le> i \<and> i < pages
                                      then page_byte os (fst window) (snd window div PAGE_SIZE os + i)
                                      else vec s i)\<rparr>))"

section \<open>The program\<close>

text \<open>
  The macro \<open>N_PAGES_IN_WINDOW\<close> is the argument \<open>npw\<close> of every function that uses it
  (or calls one that does); the program is the instance \<open>npw = N_PAGES_IN_WINDOW\<close>.
\<close>

text \<open>
  The loop of \<open>do_mincore\<close>:
  \<^verbatim>\<open>while (n > 0) { if (vec[--n] & 0x1) { vec[n] = 0; (*count_incore)++; } }\<close>
\<close>

function count_loop :: "int \<Rightarrow> int \<Rightarrow> (int \<Rightarrow> byte) \<Rightarrow> int \<Rightarrow> fault + (int \<Rightarrow> byte) \<times> int" where
  "count_loop npw n v count_incore =
     (if n > 0 then
        let n1 = n - 1 in
        if n1 \<ge> npw then Inl VecOutOfBounds
        else if v n1 AND 1 \<noteq> 0
          then count_loop npw n1 (v(n1 := 0)) (to_off_t (count_incore + 1))
          else count_loop npw n1 v count_incore
      else Inr (v, count_incore))"
  by pat_completeness auto
termination
  by (relation "measure (\<lambda>(npw, n, v, c). nat n)") auto

declare count_loop.simps [simp del]

text \<open>
  The initial value of \<open>n\<close> in \<open>do_mincore\<close>,
  \<^verbatim>\<open>int n = (len / pagesize) + ((len % pagesize)? 1: 0);\<close>
  computed in \<open>size_t\<close> (\<open>pagesize\<close> is converted) and converted to \<open>int\<close>.
\<close>

definition do_mincore_n :: "int \<Rightarrow> int \<Rightarrow> int" where
  "do_mincore_n len pagesize =
     to_int (to_size_t (len div to_size_t pagesize
                        + (if len mod to_size_t pagesize \<noteq> 0 then 1 else 0)))"

definition do_mincore ::
  "int \<Rightarrow> os \<Rightarrow> window \<Rightarrow> int \<Rightarrow> string \<Rightarrow> int \<Rightarrow> int \<Rightarrow> state \<Rightarrow> fault + int \<times> int \<times> state" where
  "do_mincore npw os window len name pagesize count_incore s =
     (if to_size_t pagesize = 0 then Inl DivisionByZero
      else
        let n = do_mincore_n len pagesize in
        case mincore npw os window len s of
          Inl f \<Rightarrow> Inl f
        | Inr (r, s1) \<Rightarrow>
            if r < 0 then
              let s2 = warn os ''failed to do mincore'' name s1 in
              Inr (to_int (- errno s2), count_incore, s2)
            else
              (case count_loop npw n (vec s1) count_incore of
                 Inl f \<Rightarrow> Inl f
               | Inr (v, c) \<Rightarrow> Inr (0, c, s1\<lparr>vec := v\<rparr>)))"

text \<open>
  The \<open>for\<close> loop of \<open>fincore_fd\<close>, with its variables \<open>file_offset\<close>, \<open>rc\<close> and
  \<open>warned_once\<close>. The result is \<open>None\<close> when the loop does not end.
\<close>

partial_function (option) fincore_fd_loop ::
  "int \<Rightarrow> os \<Rightarrow> fd \<Rightarrow> string \<Rightarrow> int \<Rightarrow> int \<Rightarrow> int \<Rightarrow> int \<Rightarrow> int \<Rightarrow> bool \<Rightarrow> int \<Rightarrow> state
   \<Rightarrow> (fault + int \<times> int \<times> state) option" where
  "fincore_fd_loop npw os fd name pagesize file_size window_size file_offset rc warned_once
      count_incore s =
     (if file_offset < file_size then
        let len0 = to_size_t (to_off_t (file_size - file_offset));
            len = (if len0 \<ge> window_size then window_size else len0) in
        case mmap os len fd file_offset s of
          (None, s1) \<Rightarrow>
            if \<not> warned_once
            then Some (Inr (to_int (- EINVAL), count_incore, warn os ''failed to do mmap'' name s1))
            else Some (Inr (rc, count_incore, s1))
        | (Some window, s1) \<Rightarrow>
            (case do_mincore npw os window len name pagesize count_incore s1 of
               Inl f \<Rightarrow> Some (Inl f)
             | Inr (rc1, c, s2) \<Rightarrow>
                 if rc1 \<noteq> 0 then Some (Inr (rc1, c, s2))
                 else fincore_fd_loop npw os fd name pagesize file_size window_size
                        (to_off_t (to_size_t (to_size_t file_offset + window_size)))
                        rc1 warned_once c (munmap window len s2))
      else Some (Inr (rc, count_incore, s)))"

declare fincore_fd_loop.simps [code]

definition fincore_fd ::
  "int \<Rightarrow> os \<Rightarrow> fd \<Rightarrow> string \<Rightarrow> int \<Rightarrow> int \<Rightarrow> int \<Rightarrow> state
   \<Rightarrow> (fault + int \<times> int \<times> state) option" where
  "fincore_fd npw os fd name pagesize file_size count_incore s =
     fincore_fd_loop npw os fd name pagesize file_size
       (to_size_t (to_int (npw * pagesize))) 0 0 False count_incore s"

text \<open>
  \<open>sb\<close> is the \<open>st_size\<close> of the caller's \<open>struct stat\<close>: \<open>None\<close> while nothing has been
  stored there.
\<close>

definition fincore_name ::
  "int \<Rightarrow> os \<Rightarrow> string \<Rightarrow> int \<Rightarrow> int option \<Rightarrow> int \<Rightarrow> state
   \<Rightarrow> (fault + int \<times> int option \<times> int \<times> state) option" where
  "fincore_name npw os name pagesize sb count_incore s =
     (case open_errno os name of
        Some e \<Rightarrow>
          Some (Inr (0, sb, count_incore, warn os ''failed to open'' name (s\<lparr>errno := e\<rparr>)))
      | None \<Rightarrow>
          (case fstat_errno os name of
             Some e \<Rightarrow>
               let s1 = warn os ''failed to do fstat'' name (s\<lparr>errno := e\<rparr>) in
               Some (Inr (to_int (- errno s1), sb, count_incore, s1))
           | None \<Rightarrow>
               let sz = st_size os name in
               if sz \<noteq> 0 then
                 (case fincore_fd npw os name name pagesize sz count_incore s of
                    None \<Rightarrow> None
                  | Some (Inl f) \<Rightarrow> Some (Inl f)
                  | Some (Inr (rc, c, s1)) \<Rightarrow> Some (Inr (rc, Some sz, c, s1)))
               else Some (Inr (0, Some sz, count_incore, s))))"

definition report_count :: "string \<Rightarrow> int option \<Rightarrow> int \<Rightarrow> state \<Rightarrow> state" where
  "report_count name file_size count_incore s =
     s\<lparr>stdout := stdout s @ [Count count_incore file_size name]\<rparr>"

definition report_failure :: "string \<Rightarrow> state \<Rightarrow> state" where
  "report_failure name s = s\<lparr>stdout := stdout s @ [Failed name]\<rparr>"

text \<open>
  The loop of \<open>main\<close> over the file names left after option parsing; each round has a
  fresh \<open>struct stat\<close> and \<open>count_incore = 0\<close>.
\<close>

fun main_loop ::
  "int \<Rightarrow> os \<Rightarrow> int \<Rightarrow> string list \<Rightarrow> int \<Rightarrow> state \<Rightarrow> (fault + int \<times> state) option" where
  "main_loop npw os pagesize [] rc s = Some (Inr (rc, s))"
| "main_loop npw os pagesize (name # names) rc s =
     (case fincore_name npw os name pagesize None 0 s of
        None \<Rightarrow> None
      | Some (Inl f) \<Rightarrow> Some (Inl f)
      | Some (Inr (r, sb, count_incore, s1)) \<Rightarrow>
          if r = 0
          then main_loop npw os pagesize names rc (report_count name sb count_incore s1)
          else main_loop npw os pagesize names EXIT_FAILURE (report_failure name s1))"

text \<open>\<open>main\<close> after option parsing: \<open>names\<close> is \<open>argv[optind..]\<close>.\<close>

definition main :: "int \<Rightarrow> os \<Rightarrow> string list \<Rightarrow> (fault + int \<times> state) option" where
  "main npw os names =
     (if names = [] then Some (Inr (EXIT_FAILURE, warn os ''no file specified'' [] init_state))
      else main_loop npw os (to_int (PAGE_SIZE os)) names EXIT_SUCCESS init_state)"

section \<open>What the claims speak of\<close>

text \<open>The residency flag of a byte of the vector: its least significant bit, as the loop tests it.\<close>

definition flag :: "byte \<Rightarrow> int" where
  "flag b = (if b AND 1 \<noteq> 0 then 1 else 0)"

text \<open>The number of resident pages among the pages \<open>lo, \<dots>, hi - 1\<close> of a file.\<close>

definition resident_pages :: "os \<Rightarrow> fd \<Rightarrow> int \<Rightarrow> int \<Rightarrow> int" where
  "resident_pages os fd lo hi = (\<Sum>p = lo..<hi. flag (page_byte os fd p))"

text \<open>Division rounded up, for a positive divisor (lemma \<open>ceil_div_ceiling\<close>).\<close>

definition ceil_div :: "int \<Rightarrow> int \<Rightarrow> int" where
  "ceil_div a b = (a + b - 1) div b"

text \<open>
  The inputs on which no machine integer of the scan wraps around: the window capacity
  \<open>npw * pagesize\<close> fits \<open>int\<close>, the file offset one window past the end of the file fits
  \<open>off_t\<close>; and \<open>pagesize\<close> is the page size of the kernel, as \<open>getpagesize\<close> returns it.
\<close>

definition in_range :: "int \<Rightarrow> os \<Rightarrow> int \<Rightarrow> int \<Rightarrow> bool" where
  "in_range npw os pagesize file_size \<longleftrightarrow>
     0 < npw \<and> 0 < pagesize \<and> npw * pagesize < 2 ^ 31 \<and> PAGE_SIZE os = pagesize
     \<and> 0 \<le> file_size \<and> file_size + npw * pagesize < 2 ^ 63"

text \<open>The windows of a file: their number, and offset, length and system calls of window \<open>i\<close>.\<close>

definition num_windows :: "int \<Rightarrow> int \<Rightarrow> int \<Rightarrow> nat" where
  "num_windows npw pagesize file_size = nat (ceil_div file_size (npw * pagesize))"

definition window_offset :: "int \<Rightarrow> int \<Rightarrow> nat \<Rightarrow> int" where
  "window_offset npw pagesize i = int i * (npw * pagesize)"

definition window_len :: "int \<Rightarrow> int \<Rightarrow> int \<Rightarrow> nat \<Rightarrow> int" where
  "window_len npw pagesize file_size i =
     min (npw * pagesize) (file_size - window_offset npw pagesize i)"

definition window_events :: "int \<Rightarrow> int \<Rightarrow> int \<Rightarrow> nat \<Rightarrow> event list" where
  "window_events npw pagesize file_size i =
     [Mmap (window_len npw pagesize file_size i) (window_offset npw pagesize i),
      Mincore (window_offset npw pagesize i) (window_len npw pagesize file_size i),
      Munmap (window_offset npw pagesize i) (window_len npw pagesize file_size i)]"

text \<open>Window \<open>i\<close> of the file can be mapped, and its residency can be queried.\<close>

definition window_ok :: "int \<Rightarrow> os \<Rightarrow> fd \<Rightarrow> int \<Rightarrow> int \<Rightarrow> nat \<Rightarrow> bool" where
  "window_ok npw os fd pagesize file_size i \<longleftrightarrow>
     mmap_errno os fd (window_len npw pagesize file_size i) (window_offset npw pagesize i) = None
     \<and> mincore_errno os fd (window_offset npw pagesize i) (window_len npw pagesize file_size i)
         = None"

text \<open>What the residency query counts in window \<open>i\<close>.\<close>

definition window_count :: "int \<Rightarrow> os \<Rightarrow> fd \<Rightarrow> int \<Rightarrow> int \<Rightarrow> nat \<Rightarrow> int" where
  "window_count npw os fd pagesize file_size i =
     resident_pages os fd (window_offset npw pagesize i div pagesize)
       (window_offset npw pagesize i div pagesize
        + ceil_div (window_len npw pagesize file_size i) pagesize)"

text \<open>
  The error codes of a failing \<open>mincore\<close> and of a failing write to stderr are positive
  values of type \<open>int\<close>.
\<close>

definition errno_positive :: "os \<Rightarrow> bool" where
  "errno_positive os \<longleftrightarrow>
     (\<forall>fd off len e. mincore_errno os fd off len = Some e \<longrightarrow> 0 < e \<and> e < 2 ^ 31)
     \<and> (\<forall>e. stderr_errno os = Some e \<longrightarrow> 0 < e \<and> e < 2 ^ 31)"

text \<open>The value of \<open>errno\<close> after a call has failed with the code \<open>e\<close> and \<open>warn\<close> has run.\<close>

definition errno_after_warn :: "os \<Rightarrow> int \<Rightarrow> int" where
  "errno_after_warn os e = (case stderr_errno os of None \<Rightarrow> e | Some e' \<Rightarrow> e')"

text \<open>The warnings and the \<open>mmap\<close> calls of a trace.\<close>

fun is_warn :: "event \<Rightarrow> bool" where
  "is_warn (Warn msg name) = True"
| "is_warn e = False"

fun is_mmap :: "event \<Rightarrow> bool" where
  "is_mmap (Mmap len off) = True"
| "is_mmap e = False"

section \<open>Example inputs\<close>

text \<open>A kernel with 4 KiB pages on which every call succeeds and every page is resident.\<close>

definition all_resident :: os where
  "all_resident = \<lparr>PAGE_SIZE = 4096, open_errno = (\<lambda>_. None), fstat_errno = (\<lambda>_. None),
     st_size = (\<lambda>_. 1048576), mmap_errno = (\<lambda>_ _ _. None), mincore_errno = (\<lambda>_ _ _. None),
     page_byte = (\<lambda>_ _. 1), stderr_errno = None\<rparr>"

text \<open>A kernel on which every file is empty.\<close>

definition empty_files :: os where
  "empty_files = \<lparr>PAGE_SIZE = 4096, open_errno = (\<lambda>_. None), fstat_errno = (\<lambda>_. None),
     st_size = (\<lambda>_. 0), mmap_errno = (\<lambda>_ _ _. None), mincore_errno = (\<lambda>_ _ _. None),
     page_byte = (\<lambda>_ _. 0), stderr_errno = None\<rparr>"


definition second_window_unqueryable :: os where
  "second_window_unqueryable = \<lparr>PAGE_SIZE = 4096, open_errno = (\<lambda>_. None),
     fstat_errno = (\<lambda>_. None), st_size = (\<lambda>_. 134217826),
     mmap_errno = (\<lambda>_ _ _. None),
     mincore_errno = (\<lambda>_ off _. if off = 134217728 then Some 12 else None),
     page_byte = (\<lambda>_ _. 1), stderr_errno = None\<rparr>"

text \<open>A kernel on which no file can be opened (error code 2, \<open>ENOENT\<close>).\<close>

definition missing_file :: os where
  "missing_file = \<lparr>PAGE_SIZE = 4096, open_errno = (\<lambda>_. Some 2),
     fstat_errno = (\<lambda>_. None), st_size = (\<lambda>_. 0),
     mmap_errno = (\<lambda>_ _ _. None), mincore_errno = (\<lambda>_ _ _. None),
     page_byte = (\<lambda>_ _. 0), stderr_errno = None\<rparr>"

text \<open>A kernel with 64 KiB pages and a resident file of 2 GiB and one byte.\<close>

definition pages_64k :: os where
  "pages_64k = \<lparr>PAGE_SIZE = 65536, open_errno = (\<lambda>_. None),
     fstat_errno = (\<lambda>_. None), st_size = (\<lambda>_. 2147483649),
     mmap_errno = (\<lambda>_ _ _. None), mincore_errno = (\<lambda>_ _ _. None),
     page_byte = (\<lambda>_ _. 1), stderr_errno = None\<rparr>"

text \<open>
  A kernel with 64 KiB pages that refuses to map at a negative file offset (error code 75,
  \<open>EOVERFLOW\<close>); every file has 4194 bytes, of which the first page is resident.
\<close>

definition negative_offset_refused :: os where
  "negative_offset_refused = \<lparr>PAGE_SIZE = 65536, open_errno = (\<lambda>_. None),
     fstat_errno = (\<lambda>_. None), st_size = (\<lambda>_. 4194),
     mmap_errno = (\<lambda>_ _ off. if off < 0 then Some 75 else None),
     mincore_errno = (\<lambda>_ _ _. None), page_byte = (\<lambda>_ p. if p = 0 then 1 else 0),
     stderr_errno = None\<rparr>"

text \<open>A kernel with 64 KiB pages on which nothing can be mapped (error code 12).\<close>

definition unmappable_64k :: os where
  "unmappable_64k = \<lparr>PAGE_SIZE = 65536, open_errno = (\<lambda>_. None),
     fstat_errno = (\<lambda>_. None), st_size = (\<lambda>_. 2147483649),
     mmap_errno = (\<lambda>_ _ _. Some 12), mincore_errno = (\<lambda>_ _ _. None),
     page_byte = (\<lambda>_ _. 1), stderr_errno = None\<rparr>"

text \<open>
  A kernel with 4 KiB pages on which \<open>mincore\<close> fails with error code 12 (\<open>ENOMEM\<close>) while
  stderr is closed, so that writing to it fails with error code 9 (\<open>EBADF\<close>).
\<close>

definition unqueryable_stderr_closed :: os where
  "unqueryable_stderr_closed = \<lparr>PAGE_SIZE = 4096, open_errno = (\<lambda>_. None),
     fstat_errno = (\<lambda>_. None), st_size = (\<lambda>_. 4194),
     mmap_errno = (\<lambda>_ _ _. None), mincore_errno = (\<lambda>_ _ _. Some 12),
     page_byte = (\<lambda>_ _. 1), stderr_errno = Some 9\<rparr>"

section \<open>Wrap-around, sums and rounded-up division\<close>

lemma to_int_id: "- (2 ^ 31) \<le> x \<Longrightarrow> x < 2 ^ 31 \<Longrightarrow> to_int x = x"
  by (simp add: to_int_def)

lemma to_size_t_id: "0 \<le> x \<Longrightarrow> x < 2 ^ 64 \<Longrightarrow> to_size_t x = x"
  by (simp add: to_size_t_def)

lemma to_off_t_id: "- (2 ^ 63) \<le> x \<Longrightarrow> x < 2 ^ 63 \<Longrightarrow> to_off_t x = x"
  by (simp add: to_off_t_def)

lemma flag_bounds: "0 \<le> flag b" "flag b \<le> 1"
  by (simp_all add: flag_def)

lemma sum_flag_bounds:
  "0 \<le> (\<Sum>i = lo..<hi. flag (f i))" "lo \<le> hi \<Longrightarrow> (\<Sum>i = lo..<hi. flag (f i)) \<le> hi - lo"
proof -
  show "0 \<le> (\<Sum>i = lo..<hi. flag (f i))"
    by (rule sum_nonneg) (simp add: flag_bounds)
  assume le: "lo \<le> hi"
  have "(\<Sum>i = lo..<hi. flag (f i)) \<le> (\<Sum>i = lo..<hi. 1)"
    by (rule sum_mono) (simp add: flag_bounds)
  also have "\<dots> = hi - lo"
    using le by simp
  finally show "(\<Sum>i = lo..<hi. flag (f i)) \<le> hi - lo" .
qed

lemma sum_int_concat:
  fixes l m u :: int
  shows "l \<le> m \<Longrightarrow> m \<le> u \<Longrightarrow> sum g {l..<m} + sum g {m..<u} = sum g {l..<u}"
  by (simp add: sum.union_disjoint [symmetric] ivl_disj_un ivl_disj_int)

lemma sum_int_shift:
  fixes a n :: int
  shows "(\<Sum>i = 0..<n. g (a + i)) = (\<Sum>p = a..<a + n. g p)"
  by (rule sum.reindex_bij_witness [where i = "\<lambda>p. p - a" and j = "\<lambda>i. a + i"]) auto

lemma sum_flag_last:
  fixes n :: int
  assumes "0 < n"
  shows "(\<Sum>i = 0..<n. flag (v i)) = (\<Sum>i = 0..<n - 1. flag (v i)) + flag (v (n - 1))"
proof -
  have "sum (\<lambda>i. flag (v i)) {0..<n - 1} + sum (\<lambda>i. flag (v i)) {n - 1..<n}
        = sum (\<lambda>i. flag (v i)) {0..<n}"
    using assms by (intro sum_int_concat) simp_all
  moreover have "{n - 1..<n} = {n - 1}"
    by auto
  ultimately show ?thesis by simp
qed

lemma count_loop_ok:
  "0 \<le> n \<Longrightarrow> n \<le> npw \<Longrightarrow> - (2 ^ 63) \<le> c \<Longrightarrow> c + n < 2 ^ 63 \<Longrightarrow>
   \<exists>v'. count_loop npw n v c = Inr (v', c + (\<Sum>i = 0..<n. flag (v i)))"
proof (induction npw n v c rule: count_loop.induct)
  case (1 npw n v c)
  show ?case
  proof (cases "n > 0")
    case False
    with "1.prems" have "n = 0" by simp
    then show ?thesis by (simp add: count_loop.simps)
  next
    case pos: True
    have inb: "\<not> n - 1 \<ge> npw" using "1.prems" by simp
    have split: "(\<Sum>i = 0..<n. flag (v i)) = (\<Sum>i = 0..<n - 1. flag (v i)) + flag (v (n - 1))"
      using pos by (rule sum_flag_last)
    show ?thesis
    proof (cases "v (n - 1) AND 1 \<noteq> 0")
      case True
      have c1: "to_off_t (c + 1) = c + 1"
        using "1.prems" pos by (intro to_off_t_id) simp_all
      have "\<exists>v'. count_loop npw (n - 1) (v(n - 1 := 0)) (to_off_t (c + 1))
                = Inr (v', to_off_t (c + 1) + (\<Sum>i = 0..<n - 1. flag ((v(n - 1 := 0)) i)))"
        using pos inb True "1.prems" c1 by (intro "1.IH"(1)) simp_all
      moreover have "(\<Sum>i = 0..<n - 1. flag ((v(n - 1 := 0)) i)) = (\<Sum>i = 0..<n - 1. flag (v i))"
        by (rule sum.cong) simp_all
      ultimately show ?thesis
        using pos inb True c1 split by (subst count_loop.simps) (simp add: flag_def Let_def algebra_simps)
    next
      case False
      have "\<exists>v'. count_loop npw (n - 1) v c = Inr (v', c + (\<Sum>i = 0..<n - 1. flag (v i)))"
        using pos inb False "1.prems" by (intro "1.IH"(2)) simp_all
      then show ?thesis
        using pos inb False split by (subst count_loop.simps) (simp add: flag_def Let_def algebra_simps)
    qed
  qed
qed

lemma ceil_div_add_mult: "0 < b \<Longrightarrow> ceil_div (k * b + a) b = k + ceil_div a b"
proof -
  assume b: "0 < b"
  have "k * b + a + b - 1 = (a + b - 1) + k * b" by simp
  then show ?thesis
    using b by (simp only: ceil_div_def div_mult_self1)
qed

lemma ceil_div_small: "0 < b \<Longrightarrow> 0 \<le> r \<Longrightarrow> r < b \<Longrightarrow> ceil_div r b = (if r = 0 then 0 else 1)"
proof -
  assume b: "0 < b" and r: "0 \<le> r" "r < b"
  show ?thesis
  proof (cases "r = 0")
    case True
    then show ?thesis using b by (simp add: ceil_div_def div_pos_pos_trivial)
  next
    case False
    have "(r + b - 1) div b = (r + b - 1 - b) div b + 1"
      using b r False by (intro div_pos_geq) simp_all
    moreover have "(r - 1) div b = 0"
      using b r False by (intro div_pos_pos_trivial) simp_all
    ultimately show ?thesis using False by (simp add: ceil_div_def)
  qed
qed

lemma ceil_div_code:
  assumes "0 < b"
  shows "a div b + (if a mod b \<noteq> 0 then 1 else 0) = ceil_div a b"
proof -
  have "ceil_div a b = ceil_div (a div b * b + a mod b) b" by simp
  also have "\<dots> = a div b + ceil_div (a mod b) b"
    using assms by (rule ceil_div_add_mult)
  also have "ceil_div (a mod b) b = (if a mod b = 0 then 0 else 1)"
    using assms by (intro ceil_div_small) simp_all
  finally show ?thesis by simp
qed

lemma ceil_div_ceiling:
  assumes "0 < b"
  shows "ceil_div a b = \<lceil>real_of_int a / real_of_int b\<rceil>"
proof -
  have "\<lceil>real_of_int a / real_of_int b\<rceil> = - (- a div b)"
    by (rule ceiling_divide_eq_div)
  also have "\<dots> = a div b + (if a mod b \<noteq> 0 then 1 else 0)"
    using assms by (simp add: zdiv_zminus1_eq_if)
  also have "\<dots> = ceil_div a b"
    using assms by (rule ceil_div_code)
  finally show ?thesis by simp
qed

lemma ceil_div_mono: "0 < b \<Longrightarrow> a \<le> a' \<Longrightarrow> ceil_div a b \<le> ceil_div a' b"
  by (simp add: ceil_div_def zdiv_mono1)

lemma ceil_div_mult: "0 < b \<Longrightarrow> ceil_div (k * b) b = k"
  using ceil_div_add_mult [of b k 0] ceil_div_small [of b 0] by simp

lemma ceil_div_nonneg: "0 < b \<Longrightarrow> 0 \<le> a \<Longrightarrow> 0 \<le> ceil_div a b"
  by (simp add: ceil_div_def pos_imp_zdiv_nonneg_iff)

lemma ceil_div_pos: "0 < b \<Longrightarrow> 0 < a \<Longrightarrow> 0 < ceil_div a b"
  by (simp add: ceil_div_def pos_imp_zdiv_pos_iff)

lemma ceil_div_le_self:
  assumes "0 < b" "0 \<le> a"
  shows "ceil_div a b \<le> a"
proof -
  have q: "0 \<le> a div b"
    using assms by (simp add: pos_imp_zdiv_nonneg_iff)
  have "a div b * 1 \<le> a div b * b"
    using q assms(1) by (intro mult_left_mono) simp_all
  moreover have "a div b * b + a mod b = a" by simp
  moreover have "(if a mod b \<noteq> 0 then 1 else 0) \<le> a mod b"
  proof (cases "a mod b = 0")
    case True
    then show ?thesis by simp
  next
    case False
    have "0 \<le> a mod b" using assms(1) by simp
    with False have "1 \<le> a mod b" by linarith
    then show ?thesis using False by simp
  qed
  ultimately have "a div b + (if a mod b \<noteq> 0 then 1 else 0) \<le> a"
    by linarith
  then show ?thesis
    using assms(1) by (simp only: ceil_div_code)
qed

section \<open>One call of the residency query\<close>

lemma mincore_vec_sum:
  assumes "0 \<le> n"
  shows "(\<Sum>i = 0..<n. flag (if 0 \<le> i \<and> i < n then page_byte os fd (a + i) else w i))
         = resident_pages os fd a (a + n)"
proof -
  have "(\<Sum>i = 0..<n. flag (if 0 \<le> i \<and> i < n then page_byte os fd (a + i) else w i))
        = (\<Sum>i = 0..<n. flag (page_byte os fd (a + i)))"
    by (rule sum.cong) simp_all
  also have "\<dots> = (\<Sum>p = a..<a + n. flag (page_byte os fd p))"
    by (rule sum_int_shift)
  finally show ?thesis by (simp add: resident_pages_def)
qed

lemma mincore_ok:
  assumes "mincore_errno os fd off len = None" "(len + PAGE_SIZE os - 1) div PAGE_SIZE os \<le> npw"
  shows "\<exists>s1. mincore npw os (fd, off) len s = Inr (0, s1)
      \<and> vec s1 = (\<lambda>i. if 0 \<le> i \<and> i < (len + PAGE_SIZE os - 1) div PAGE_SIZE os
                       then page_byte os fd (off div PAGE_SIZE os + i) else vec s i)
      \<and> trace s1 = trace s @ [Mincore off len] \<and> stdout s1 = stdout s \<and> errno s1 = errno s"
  using assms by (simp add: mincore_def Let_def fun_eq_iff)

lemma mincore_fail:
  assumes "mincore_errno os fd off len = Some e"
  shows "\<exists>s1. mincore npw os (fd, off) len s = Inr (- 1, s1)
      \<and> vec s1 = vec s \<and> trace s1 = trace s @ [Mincore off len] \<and> stdout s1 = stdout s
      \<and> errno s1 = e"
  using assms by (simp add: mincore_def Let_def)

lemma mult_bounds:
  fixes npw pagesize :: int
  assumes "0 < npw" "0 < pagesize" "npw * pagesize < 2 ^ 31"
  shows "pagesize < 2 ^ 31" "npw < 2 ^ 31" "0 < npw * pagesize"
proof -
  have "1 * pagesize \<le> npw * pagesize"
    using assms(1,2) by (intro mult_right_mono) simp_all
  then show "pagesize < 2 ^ 31" using assms(3) by simp
  have "npw * 1 \<le> npw * pagesize"
    using assms(1,2) by (intro mult_left_mono) simp_all
  then show "npw < 2 ^ 31" using assms(3) by simp
  show "0 < npw * pagesize" using assms(1,2) by simp
qed

lemma do_mincore_n_ceil:
  assumes "0 < pagesize" "pagesize < 2 ^ 64"
    and "0 \<le> ceil_div len pagesize" "ceil_div len pagesize < 2 ^ 31"
  shows "do_mincore_n len pagesize = ceil_div len pagesize"
proof -
  let ?n = "ceil_div len pagesize"
  have "to_size_t pagesize = pagesize"
    using assms(1,2) by (intro to_size_t_id) simp_all
  moreover have "len div pagesize + (if len mod pagesize \<noteq> 0 then 1 else 0) = ?n"
    using assms(1) by (rule ceil_div_code)
  moreover have "to_size_t ?n = ?n"
    using assms(3,4) by (intro to_size_t_id) simp_all
  moreover have "to_int ?n = ?n"
    using assms(3,4) by (intro to_int_id) simp_all
  ultimately show ?thesis
    by (simp add: do_mincore_n_def)
qed

lemma do_mincore_ok:
  assumes ps: "0 < pagesize" "PAGE_SIZE os = pagesize"
    and npw: "0 < npw" "npw * pagesize < 2 ^ 31"
    and len: "0 \<le> len" "len \<le> npw * pagesize"
    and ok: "mincore_errno os fd off len = None"
    and c: "0 \<le> c" "c + npw < 2 ^ 63"
  shows "\<exists>s'. do_mincore npw os (fd, off) len name pagesize c s
              = Inr (0, c + resident_pages os fd (off div pagesize)
                              (off div pagesize + ceil_div len pagesize), s')
            \<and> trace s' = trace s @ [Mincore off len] \<and> stdout s' = stdout s"
proof -
  let ?n = "ceil_div len pagesize"
  note b = mult_bounds [OF npw(1) ps(1) npw(2)]
  have n0: "0 \<le> ?n" using ps len by (simp add: ceil_div_nonneg)
  have "?n \<le> ceil_div (npw * pagesize) pagesize"
    using ps len by (intro ceil_div_mono) simp_all
  then have nle: "?n \<le> npw" using ps by (simp add: ceil_div_mult)
  have psz: "to_size_t pagesize = pagesize"
    using ps b(1) by (intro to_size_t_id) simp_all
  have n_code: "do_mincore_n len pagesize = ?n"
    using ps(1) b(1) n0 nle b(2) by (intro do_mincore_n_ceil) simp_all
  have pages: "(len + PAGE_SIZE os - 1) div PAGE_SIZE os = ?n"
    using ps(2) by (simp add: ceil_div_def)
  let ?v = "\<lambda>i. if 0 \<le> i \<and> i < ?n then page_byte os fd (off div pagesize + i) else vec s i"
  obtain s1 where mc: "mincore npw os (fd, off) len s = Inr (0, s1)"
    and s1: "vec s1 = ?v" "trace s1 = trace s @ [Mincore off len]" "stdout s1 = stdout s"
    using mincore_ok [OF ok, of npw s] nle pages ps(2) by auto
  obtain v' where cl: "count_loop npw ?n ?v c = Inr (v', c + (\<Sum>i = 0..<?n. flag (?v i)))"
    using count_loop_ok [of ?n npw c ?v] n0 nle c by auto
  have "(\<Sum>i = 0..<?n. flag (?v i)) = resident_pages os fd (off div pagesize) (off div pagesize + ?n)"
    using n0 by (rule mincore_vec_sum)
  with cl have cl': "count_loop npw ?n (vec s1) c
      = Inr (v', c + resident_pages os fd (off div pagesize) (off div pagesize + ?n))"
    using s1(1) by simp
  have "do_mincore npw os (fd, off) len name pagesize c s
      = Inr (0, c + resident_pages os fd (off div pagesize) (off div pagesize + ?n),
             s1\<lparr>vec := v'\<rparr>)"
    using ps(1) psz n_code mc cl' by (simp add: do_mincore_def Let_def)
  then show ?thesis using s1 by auto
qed

lemma do_mincore_fail:
  assumes ps: "0 < pagesize" "pagesize < 2 ^ 31"
    and bad: "mincore_errno os fd off len = Some e"
    and e: "0 < errno_after_warn os e" "errno_after_warn os e < 2 ^ 31"
  shows "\<exists>s'. do_mincore npw os (fd, off) len name pagesize c s = Inr (- errno_after_warn os e, c, s')
            \<and> trace s' = trace s @ [Mincore off len, Warn ''failed to do mincore'' name]
            \<and> stdout s' = stdout s"
proof -
  have psz: "to_size_t pagesize = pagesize"
    using ps by (intro to_size_t_id) simp_all
  obtain s1 where mc: "mincore npw os (fd, off) len s = Inr (- 1, s1)"
    and s1: "errno s1 = e" "trace s1 = trace s @ [Mincore off len]" "stdout s1 = stdout s"
    using mincore_fail [OF bad, of npw s] by auto
  have "to_int (- errno_after_warn os e) = - errno_after_warn os e"
    using e by (intro to_int_id) simp_all
  moreover have "errno (warn os ''failed to do mincore'' name s1) = errno_after_warn os e"
    using s1(1) by (simp add: warn_def errno_after_warn_def split: option.splits)
  ultimately have "do_mincore npw os (fd, off) len name pagesize c s
      = Inr (- errno_after_warn os e, c, warn os ''failed to do mincore'' name s1)"
    using ps(1) psz mc by (simp add: do_mincore_def Let_def)
  then show ?thesis using s1 by (auto simp: warn_def)
qed

section \<open>One round of the window loop\<close>

lemma loop_done:
  "\<not> off < file_size \<Longrightarrow>
   fincore_fd_loop npw os fd name pagesize file_size W off rc wo c s = Some (Inr (rc, c, s))"
  by (subst fincore_fd_loop.simps) simp

lemma loop_len:
  assumes "0 \<le> off" "off < file_size" "file_size < 2 ^ 63"
  shows "(let len0 = to_size_t (to_off_t (file_size - off)) in if len0 \<ge> W then W else len0)
         = min W (file_size - off)"
proof -
  have "to_off_t (file_size - off) = file_size - off"
    using assms by (intro to_off_t_id) simp_all
  moreover have "to_size_t (file_size - off) = file_size - off"
    using assms by (intro to_size_t_id) simp_all
  ultimately show ?thesis by (simp add: Let_def min_def)
qed

lemma loop_next:
  assumes "0 \<le> off" "0 \<le> W" "off + W < 2 ^ 63"
  shows "to_off_t (to_size_t (to_size_t off + W)) = off + W"
proof -
  have "to_size_t off = off"
    using assms by (intro to_size_t_id) simp_all
  moreover have "to_size_t (off + W) = off + W"
    using assms by (intro to_size_t_id) simp_all
  moreover have "to_off_t (off + W) = off + W"
    using assms by (intro to_off_t_id) simp_all
  ultimately show ?thesis by simp
qed

lemma loop_mmap_fail:
  assumes "0 \<le> off" "off < file_size" "file_size < 2 ^ 63"
    and "mmap_errno os fd (min W (file_size - off)) off = Some e"
  shows "\<exists>s'. fincore_fd_loop npw os fd name pagesize file_size W off rc False c s
               = Some (Inr (- EINVAL, c, s'))
            \<and> trace s' = trace s @ [Mmap (min W (file_size - off)) off,
                                     Warn ''failed to do mmap'' name]
            \<and> stdout s' = stdout s"
proof -
  have "to_int (- EINVAL) = - EINVAL"
    by (simp add: EINVAL_def to_int_def)
  then show ?thesis
    using assms(2,4) loop_len [OF assms(1-3), of W]
    by (subst fincore_fd_loop.simps) (simp add: mmap_def warn_def Let_def)
qed

lemma loop_mincore_fail:
  assumes "0 \<le> off" "off < file_size" "file_size < 2 ^ 63"
    and ps: "0 < pagesize" "pagesize < 2 ^ 31"
    and "mmap_errno os fd (min W (file_size - off)) off = None"
    and bad: "mincore_errno os fd off (min W (file_size - off)) = Some e"
    and e: "0 < errno_after_warn os e" "errno_after_warn os e < 2 ^ 31"
  shows "\<exists>s'. fincore_fd_loop npw os fd name pagesize file_size W off rc wo c s
               = Some (Inr (- errno_after_warn os e, c, s'))
            \<and> trace s' = trace s @ [Mmap (min W (file_size - off)) off,
                                     Mincore off (min W (file_size - off)),
                                     Warn ''failed to do mincore'' name]
            \<and> stdout s' = stdout s"
proof -
  let ?len = "min W (file_size - off)"
  let ?s1 = "s\<lparr>trace := trace s @ [Mmap ?len off]\<rparr>"
  obtain s' where dm: "do_mincore npw os (fd, off) ?len name pagesize c ?s1 = Inr (- errno_after_warn os e, c, s')"
    and s': "trace s' = trace ?s1 @ [Mincore off ?len, Warn ''failed to do mincore'' name]"
            "stdout s' = stdout ?s1"
    using do_mincore_fail [OF ps bad e, of npw name c ?s1] by auto
  have "fincore_fd_loop npw os fd name pagesize file_size W off rc wo c s = Some (Inr (- errno_after_warn os e, c, s'))"
    using assms(2,6) e(1) loop_len [OF assms(1-3), of W] dm
    by (subst fincore_fd_loop.simps) (simp add: mmap_def Let_def)
  then show ?thesis using s' by simp
qed

lemma loop_ok:
  assumes off: "0 \<le> off" "off < file_size"
    and r: "in_range npw os pagesize file_size"
    and W: "W = npw * pagesize"
    and m: "mmap_errno os fd (min W (file_size - off)) off = None"
    and ok: "mincore_errno os fd off (min W (file_size - off)) = None"
    and c: "0 \<le> c" "c + npw < 2 ^ 63"
  shows "\<exists>s'. fincore_fd_loop npw os fd name pagesize file_size W off rc wo c s
               = fincore_fd_loop npw os fd name pagesize file_size W (off + W) 0 wo
                   (c + resident_pages os fd (off div pagesize)
                          (off div pagesize + ceil_div (min W (file_size - off)) pagesize)) s'
            \<and> trace s' = trace s @ [Mmap (min W (file_size - off)) off,
                                     Mincore off (min W (file_size - off)),
                                     Munmap off (min W (file_size - off))]
            \<and> stdout s' = stdout s"
proof -
  let ?len = "min W (file_size - off)"
  let ?s1 = "s\<lparr>trace := trace s @ [Mmap ?len off]\<rparr>"
  let ?c' = "c + resident_pages os fd (off div pagesize) (off div pagesize + ceil_div ?len pagesize)"
  from r have ps: "0 < pagesize" "PAGE_SIZE os = pagesize"
    and npw: "0 < npw" "npw * pagesize < 2 ^ 31"
    and fs: "file_size + npw * pagesize < 2 ^ 63"
    by (simp_all add: in_range_def)
  note b = mult_bounds [OF npw(1) ps(1) npw(2)]
  have fs63: "file_size < 2 ^ 63" using fs b(3) by simp
  have len: "0 \<le> ?len" "?len \<le> npw * pagesize"
    using off b(3) W by simp_all
  obtain s2 where dm: "do_mincore npw os (fd, off) ?len name pagesize c ?s1 = Inr (0, ?c', s2)"
    and s2: "trace s2 = trace ?s1 @ [Mincore off ?len]" "stdout s2 = stdout ?s1"
    using do_mincore_ok [OF ps npw len ok c, of name ?s1] by auto
  have nxt: "to_off_t (to_size_t (to_size_t off + W)) = off + W"
    using off fs b(3) W by (intro loop_next) simp_all
  have "fincore_fd_loop npw os fd name pagesize file_size W off rc wo c s
        = fincore_fd_loop npw os fd name pagesize file_size W (off + W) 0 wo ?c'
            (munmap (fd, off) ?len s2)"
    using off(2) m loop_len [OF off fs63, of W] dm nxt
    by (subst fincore_fd_loop.simps) (simp add: mmap_def Let_def)
  then show ?thesis using s2 by (auto simp: munmap_def)
qed

lemma lt_ceil_div:
  assumes "0 < b"
  shows "(k < ceil_div a b) = (k * b < a)"
proof
  assume "k * b < a"
  then have "k * b + 1 \<le> a" by simp
  then have "ceil_div (k * b + 1) b \<le> ceil_div a b"
    using assms by (intro ceil_div_mono)
  moreover have "ceil_div (k * b + 1) b = k + ceil_div 1 b"
    using assms by (rule ceil_div_add_mult)
  moreover have "0 < ceil_div 1 b"
    using assms by (intro ceil_div_pos) simp_all
  ultimately show "k < ceil_div a b" by linarith
next
  assume lt: "k < ceil_div a b"
  show "k * b < a"
  proof (rule ccontr)
    assume "\<not> k * b < a"
    then have "a \<le> k * b" by simp
    then have "ceil_div a b \<le> ceil_div (k * b) b"
      using assms by (intro ceil_div_mono)
    then show False using lt assms by (simp add: ceil_div_mult)
  qed
qed

lemma window_pages:
  fixes j npw pagesize file_size :: int
  assumes ps: "0 < pagesize" and npw: "0 < npw" and j: "0 \<le> j"
    and lt: "j * (npw * pagesize) < file_size"
  defines "W \<equiv> npw * pagesize"
  defines "P \<equiv> ceil_div file_size pagesize"
  shows "(j * W) div pagesize = j * npw"
    and "j * npw \<le> P"
    and "j * npw + ceil_div (min W (file_size - j * W)) pagesize = min ((j + 1) * npw) P"
proof -
  let ?rest = "file_size - j * W"
  show d: "(j * W) div pagesize = j * npw"
    using ps by (simp add: W_def)
  have "ceil_div file_size pagesize = ceil_div ((j * npw) * pagesize + ?rest) pagesize"
    by (rule arg_cong [where f = "\<lambda>x. ceil_div x pagesize"]) (simp add: W_def algebra_simps)
  then have "P = ceil_div ((j * npw) * pagesize + ?rest) pagesize"
    by (simp only: P_def)
  also have "\<dots> = j * npw + ceil_div ?rest pagesize"
    using ps by (rule ceil_div_add_mult)
  finally have P: "P = j * npw + ceil_div ?rest pagesize" .
  have rest: "0 < ?rest" using lt by (simp add: W_def)
  have "0 \<le> ceil_div ?rest pagesize"
    using ps rest by (intro ceil_div_nonneg) simp_all
  then show "j * npw \<le> P" using P by simp
  have cW: "ceil_div W pagesize = npw"
    using ps by (simp add: W_def ceil_div_mult)
  have "ceil_div (min W ?rest) pagesize = min npw (ceil_div ?rest pagesize)"
  proof (cases "W \<le> ?rest")
    case True
    then have "ceil_div W pagesize \<le> ceil_div ?rest pagesize"
      using ps by (intro ceil_div_mono)
    then show ?thesis using True cW by (simp add: min_def)
  next
    case False
    then have "ceil_div ?rest pagesize \<le> ceil_div W pagesize"
      using ps by (intro ceil_div_mono) simp_all
    then show ?thesis using False cW by (simp add: min_def)
  qed
  then show "j * npw + ceil_div (min W ?rest) pagesize = min ((j + 1) * npw) P"
    using P by (simp add: algebra_simps min_def)
qed

section \<open>The window loop as a whole\<close>

lemma resident_pages_empty: "hi \<le> lo \<Longrightarrow> resident_pages os fd lo hi = 0"
  by (simp add: resident_pages_def)

lemma resident_pages_concat:
  "lo \<le> mid \<Longrightarrow> mid \<le> hi \<Longrightarrow>
   resident_pages os fd lo mid + resident_pages os fd mid hi = resident_pages os fd lo hi"
  unfolding resident_pages_def by (rule sum_int_concat)

lemma resident_pages_bounds:
  "0 \<le> resident_pages os fd lo hi" "lo \<le> hi \<Longrightarrow> resident_pages os fd lo hi \<le> hi - lo"
  unfolding resident_pages_def by (rule sum_flag_bounds, erule sum_flag_bounds)

lemma lt_num_windows:
  assumes "0 < npw" "0 < pagesize"
  shows "(i < num_windows npw pagesize file_size) = (window_offset npw pagesize i < file_size)"
proof -
  have "0 < npw * pagesize" using assms by simp
  then have "(int i < ceil_div file_size (npw * pagesize)) = (int i * (npw * pagesize) < file_size)"
    by (rule lt_ceil_div)
  then show ?thesis
    by (simp add: num_windows_def window_offset_def zless_nat_eq_int_zless)
qed

lemma window_count_step:
  assumes ps: "0 < pagesize" and npw: "0 < npw"
    and lt: "j < num_windows npw pagesize file_size"
  shows "resident_pages os fd 0 (min (int j * npw) (ceil_div file_size pagesize))
         + window_count npw os fd pagesize file_size j
         = resident_pages os fd 0 (min (int (Suc j) * npw) (ceil_div file_size pagesize))"
    and "int j * npw \<le> ceil_div file_size pagesize"
proof -
  let ?W = "npw * pagesize"
  let ?P = "ceil_div file_size pagesize"
  let ?off = "window_offset npw pagesize j"
  let ?hi = "min ((int j + 1) * npw) ?P"
  have lt': "int j * ?W < file_size"
    using lt lt_num_windows [OF npw ps, of j file_size] by (simp add: window_offset_def)
  have j0: "0 \<le> int j" by simp
  note wp = window_pages [OF ps npw j0 lt']
  have off_eq: "?off = int j * ?W"
    by (simp add: window_offset_def)
  show le: "int j * npw \<le> ?P" by (rule wp(2))
  have jn: "0 \<le> int j * npw" using npw by simp
  have "?off div pagesize = int j * npw"
    using wp(1) off_eq by simp
  moreover have "int j * npw + ceil_div (min ?W (file_size - ?off)) pagesize = ?hi"
    using wp(3) off_eq by simp
  ultimately have wc: "window_count npw os fd pagesize file_size j
                       = resident_pages os fd (int j * npw) ?hi"
    by (simp only: window_count_def window_len_def)
  have "int j * npw \<le> ?hi"
    using le npw by (simp add: algebra_simps)
  then have "resident_pages os fd 0 (int j * npw) + resident_pages os fd (int j * npw) ?hi
             = resident_pages os fd 0 ?hi"
    using jn by (intro resident_pages_concat)
  moreover have "min (int j * npw) ?P = int j * npw"
    using le by simp
  moreover have "int (Suc j) = int j + 1" by simp
  ultimately show "resident_pages os fd 0 (min (int j * npw) ?P)
         + window_count npw os fd pagesize file_size j
         = resident_pages os fd 0 (min (int (Suc j) * npw) ?P)"
    using wc by (simp only:)
qed

lemma window_count_sum:
  assumes ps: "0 < pagesize" and npw: "0 < npw"
    and j: "j \<le> num_windows npw pagesize file_size"
  shows "(\<Sum>i<j. window_count npw os fd pagesize file_size i)
         = resident_pages os fd 0 (min (int j * npw) (ceil_div file_size pagesize))"
  using j
proof (induction j)
  case 0
  have "resident_pages os fd 0 (min (int 0 * npw) (ceil_div file_size pagesize)) = 0"
    by (rule resident_pages_empty) simp
  then show ?case by simp
next
  case (Suc j)
  then have lt: "j < num_windows npw pagesize file_size" by simp
  show ?case
    using Suc window_count_step(1) [OF ps npw lt, of os fd] by simp
qed

lemma pages_covered:
  assumes ps: "0 < pagesize" and npw: "0 < npw" and fs: "0 \<le> file_size"
  shows "min (int (num_windows npw pagesize file_size) * npw) (ceil_div file_size pagesize)
         = ceil_div file_size pagesize"
proof -
  let ?n = "num_windows npw pagesize file_size"
  have "\<not> window_offset npw pagesize ?n < file_size"
    using lt_num_windows [OF npw ps, of ?n file_size] by simp
  then have "file_size \<le> (int ?n * npw) * pagesize"
    by (simp add: window_offset_def algebra_simps)
  then have "ceil_div file_size pagesize \<le> ceil_div ((int ?n * npw) * pagesize) pagesize"
    using ps by (intro ceil_div_mono)
  then show ?thesis
    using ps by (simp add: ceil_div_mult)
qed

lemma loop_prefix:
  assumes r: "in_range npw os pagesize file_size"
    and j: "j \<le> num_windows npw pagesize file_size"
    and ok: "\<forall>i<j. window_ok npw os fd pagesize file_size i"
  shows "\<exists>s'. fincore_fd_loop npw os fd name pagesize file_size (npw * pagesize) 0 0 False 0 s
               = fincore_fd_loop npw os fd name pagesize file_size (npw * pagesize)
                   (window_offset npw pagesize j) 0 False
                   (resident_pages os fd 0 (min (int j * npw) (ceil_div file_size pagesize))) s'
            \<and> trace s' = trace s @ concat (map (window_events npw pagesize file_size) [0..<j])
            \<and> stdout s' = stdout s"
  using j ok
proof (induction j)
  case 0
  have "resident_pages os fd 0 (min (int 0 * npw) (ceil_div file_size pagesize)) = 0"
    by (rule resident_pages_empty) simp
  then show ?case
    by (auto simp: window_offset_def)
next
  case (Suc j)
  let ?W = "npw * pagesize"
  let ?P = "ceil_div file_size pagesize"
  let ?off = "window_offset npw pagesize j"
  let ?len = "window_len npw pagesize file_size j"
  let ?c = "resident_pages os fd 0 (min (int j * npw) ?P)"
  from r have ps: "0 < pagesize" and npw: "0 < npw" and fs: "file_size + ?W < 2 ^ 63" "0 \<le> file_size"
    by (simp_all add: in_range_def)
  obtain s1 where
    pre: "fincore_fd_loop npw os fd name pagesize file_size ?W 0 0 False 0 s
          = fincore_fd_loop npw os fd name pagesize file_size ?W ?off 0 False ?c s1"
    and s1: "trace s1 = trace s @ concat (map (window_events npw pagesize file_size) [0..<j])"
            "stdout s1 = stdout s"
    using Suc by auto
  have jlt: "j < num_windows npw pagesize file_size"
    using Suc.prems(1) by simp
  have lt: "?off < file_size"
    using jlt lt_num_windows [OF npw ps, of j file_size] by simp
  have off0: "0 \<le> ?off"
    using ps npw by (simp add: window_offset_def)
  note ws1 = window_count_step(1) [OF ps npw jlt, of os fd]
  note ws2 = window_count_step(2) [OF ps npw jlt]
  have "?c \<le> min (int j * npw) ?P - 0"
    using npw ws2 by (intro resident_pages_bounds) simp
  moreover have "?P \<le> file_size"
    using ps fs(2) by (rule ceil_div_le_self)
  moreover have "npw * 1 \<le> npw * pagesize"
    using ps npw by (intro mult_left_mono) simp_all
  ultimately have cb: "?c + npw < 2 ^ 63"
    using fs(1) by simp
  have wok: "mmap_errno os fd (min ?W (file_size - ?off)) ?off = None"
            "mincore_errno os fd ?off (min ?W (file_size - ?off)) = None"
    using Suc.prems(2) by (simp_all add: window_ok_def window_len_def)
  obtain s2 where
    step: "fincore_fd_loop npw os fd name pagesize file_size ?W ?off 0 False ?c s1
           = fincore_fd_loop npw os fd name pagesize file_size ?W (?off + ?W) 0 False
               (?c + resident_pages os fd (?off div pagesize)
                    (?off div pagesize + ceil_div (min ?W (file_size - ?off)) pagesize)) s2"
    and s2: "trace s2 = trace s1 @ [Mmap (min ?W (file_size - ?off)) ?off,
                                    Mincore ?off (min ?W (file_size - ?off)),
                                    Munmap ?off (min ?W (file_size - ?off))]"
            "stdout s2 = stdout s1"
    using loop_ok [OF off0 lt r refl wok resident_pages_bounds(1) cb, of name 0 False s1]
    by auto
  have cnt: "?c + resident_pages os fd (?off div pagesize)
                    (?off div pagesize + ceil_div (min ?W (file_size - ?off)) pagesize)
             = resident_pages os fd 0 (min (int (Suc j) * npw) ?P)"
    using ws1 by (simp only: window_count_def window_len_def)
  have nxt: "?off + ?W = window_offset npw pagesize (Suc j)"
    by (simp add: window_offset_def algebra_simps)
  have "trace s2 = trace s @ concat (map (window_events npw pagesize file_size) [0..<Suc j])"
    using s1 s2 by (simp add: window_events_def window_len_def)
  then show ?case
    using pre step cnt nxt s1 s2 by auto
qed

lemma window_size_id:
  assumes "in_range npw os pagesize file_size"
  shows "to_size_t (to_int (npw * pagesize)) = npw * pagesize"
proof -
  from assms have "0 < npw * pagesize" "npw * pagesize < 2 ^ 31"
    by (simp_all add: in_range_def)
  then have "to_int (npw * pagesize) = npw * pagesize" "to_size_t (npw * pagesize) = npw * pagesize"
    by (simp_all add: to_int_id to_size_t_id)
  then show ?thesis by simp
qed

lemma fincore_fd_success:
  assumes r: "in_range npw os pagesize file_size"
    and ok: "\<forall>i<num_windows npw pagesize file_size. window_ok npw os fd pagesize file_size i"
  shows "\<exists>s'. fincore_fd npw os fd name pagesize file_size 0 s
               = Some (Inr (0, resident_pages os fd 0 (ceil_div file_size pagesize), s'))
            \<and> trace s' = trace s @ concat (map (window_events npw pagesize file_size)
                                              [0..<num_windows npw pagesize file_size])
            \<and> stdout s' = stdout s"
proof -
  let ?n = "num_windows npw pagesize file_size"
  from r have ps: "0 < pagesize" and npw: "0 < npw" and fs: "0 \<le> file_size"
    by (simp_all add: in_range_def)
  obtain s' where
    pre: "fincore_fd_loop npw os fd name pagesize file_size (npw * pagesize) 0 0 False 0 s
          = fincore_fd_loop npw os fd name pagesize file_size (npw * pagesize)
              (window_offset npw pagesize ?n) 0 False
              (resident_pages os fd 0 (min (int ?n * npw) (ceil_div file_size pagesize))) s'"
    and s': "trace s' = trace s @ concat (map (window_events npw pagesize file_size) [0..<?n])"
            "stdout s' = stdout s"
    using loop_prefix [OF r order_refl ok, of name s] by auto
  have "\<not> window_offset npw pagesize ?n < file_size"
    using lt_num_windows [OF npw ps, of ?n file_size] by simp
  then have "fincore_fd_loop npw os fd name pagesize file_size (npw * pagesize)
              (window_offset npw pagesize ?n) 0 False
              (resident_pages os fd 0 (min (int ?n * npw) (ceil_div file_size pagesize))) s'
            = Some (Inr (0, resident_pages os fd 0 (min (int ?n * npw) (ceil_div file_size pagesize)), s'))"
    by (rule loop_done)
  then have "fincore_fd npw os fd name pagesize file_size 0 s
             = Some (Inr (0, resident_pages os fd 0 (ceil_div file_size pagesize), s'))"
    using pre pages_covered [OF ps npw fs] window_size_id [OF r]
    by (simp add: fincore_fd_def)
  then show ?thesis using s' by auto
qed

lemma fincore_fd_mmap_fail:
  assumes r: "in_range npw os pagesize file_size"
    and j: "j < num_windows npw pagesize file_size"
    and ok: "\<forall>i<j. window_ok npw os fd pagesize file_size i"
    and bad: "mmap_errno os fd (window_len npw pagesize file_size j)
                (window_offset npw pagesize j) = Some e"
  shows "\<exists>s'. fincore_fd npw os fd name pagesize file_size 0 s
               = Some (Inr (- EINVAL, resident_pages os fd 0 (int j * npw), s'))
            \<and> trace s' = trace s @ concat (map (window_events npw pagesize file_size) [0..<j])
                           @ [Mmap (window_len npw pagesize file_size j)
                                (window_offset npw pagesize j),
                              Warn ''failed to do mmap'' name]
            \<and> stdout s' = stdout s"
proof -
  let ?W = "npw * pagesize"
  let ?off = "window_offset npw pagesize j"
  let ?c = "resident_pages os fd 0 (min (int j * npw) (ceil_div file_size pagesize))"
  from r have ps: "0 < pagesize" and npw: "0 < npw" "npw * pagesize < 2 ^ 31"
    and fs: "file_size + ?W < 2 ^ 63"
    by (simp_all add: in_range_def)
  note b = mult_bounds [OF npw(1) ps npw(2)]
  have fs63: "file_size < 2 ^ 63" using fs b(3) by simp
  obtain s1 where
    pre: "fincore_fd_loop npw os fd name pagesize file_size ?W 0 0 False 0 s
          = fincore_fd_loop npw os fd name pagesize file_size ?W ?off 0 False ?c s1"
    and s1: "trace s1 = trace s @ concat (map (window_events npw pagesize file_size) [0..<j])"
            "stdout s1 = stdout s"
    using loop_prefix [OF r less_imp_le [OF j] ok, of name s] by auto
  have lt: "?off < file_size"
    using j lt_num_windows [OF npw(1) ps, of j file_size] by simp
  have off0: "0 \<le> ?off"
    using ps npw by (simp add: window_offset_def)
  have bad': "mmap_errno os fd (min ?W (file_size - ?off)) ?off = Some e"
    using bad by (simp add: window_len_def)
  obtain s2 where
    step: "fincore_fd_loop npw os fd name pagesize file_size ?W ?off 0 False ?c s1
           = Some (Inr (- EINVAL, ?c, s2))"
    and s2: "trace s2 = trace s1 @ [Mmap (min ?W (file_size - ?off)) ?off,
                                    Warn ''failed to do mmap'' name]"
            "stdout s2 = stdout s1"
    using loop_mmap_fail [OF off0 lt fs63 bad', of npw name pagesize 0 ?c s1] by auto
  have "min (int j * npw) (ceil_div file_size pagesize) = int j * npw"
    using window_count_step(2) [OF ps npw(1) j] by simp
  then have "fincore_fd npw os fd name pagesize file_size 0 s
             = Some (Inr (- EINVAL, resident_pages os fd 0 (int j * npw), s2))"
    using pre step window_size_id [OF r] by (simp add: fincore_fd_def)
  then show ?thesis using s1 s2 by (auto simp: window_len_def)
qed

lemma fincore_fd_mincore_fail:
  assumes r: "in_range npw os pagesize file_size"
    and j: "j < num_windows npw pagesize file_size"
    and ok: "\<forall>i<j. window_ok npw os fd pagesize file_size i"
    and m: "mmap_errno os fd (window_len npw pagesize file_size j)
                (window_offset npw pagesize j) = None"
    and bad: "mincore_errno os fd (window_offset npw pagesize j)
                (window_len npw pagesize file_size j) = Some e"
    and e: "0 < errno_after_warn os e" "errno_after_warn os e < 2 ^ 31"
  shows "\<exists>s'. fincore_fd npw os fd name pagesize file_size 0 s
               = Some (Inr (- errno_after_warn os e, resident_pages os fd 0 (int j * npw), s'))
            \<and> trace s' = trace s @ concat (map (window_events npw pagesize file_size) [0..<j])
                           @ [Mmap (window_len npw pagesize file_size j)
                                (window_offset npw pagesize j),
                              Mincore (window_offset npw pagesize j)
                                (window_len npw pagesize file_size j),
                              Warn ''failed to do mincore'' name]
            \<and> stdout s' = stdout s"
proof -
  let ?W = "npw * pagesize"
  let ?off = "window_offset npw pagesize j"
  let ?c = "resident_pages os fd 0 (min (int j * npw) (ceil_div file_size pagesize))"
  from r have ps: "0 < pagesize" and npw: "0 < npw" "npw * pagesize < 2 ^ 31"
    and fs: "file_size + ?W < 2 ^ 63"
    by (simp_all add: in_range_def)
  note b = mult_bounds [OF npw(1) ps npw(2)]
  have fs63: "file_size < 2 ^ 63" using fs b(3) by simp
  obtain s1 where
    pre: "fincore_fd_loop npw os fd name pagesize file_size ?W 0 0 False 0 s
          = fincore_fd_loop npw os fd name pagesize file_size ?W ?off 0 False ?c s1"
    and s1: "trace s1 = trace s @ concat (map (window_events npw pagesize file_size) [0..<j])"
            "stdout s1 = stdout s"
    using loop_prefix [OF r less_imp_le [OF j] ok, of name s] by auto
  have lt: "?off < file_size"
    using j lt_num_windows [OF npw(1) ps, of j file_size] by simp
  have off0: "0 \<le> ?off"
    using ps npw by (simp add: window_offset_def)
  have m': "mmap_errno os fd (min ?W (file_size - ?off)) ?off = None"
    and bad': "mincore_errno os fd ?off (min ?W (file_size - ?off)) = Some e"
    using m bad by (simp_all add: window_len_def)
  obtain s2 where
    step: "fincore_fd_loop npw os fd name pagesize file_size ?W ?off 0 False ?c s1
           = Some (Inr (- errno_after_warn os e, ?c, s2))"
    and s2: "trace s2 = trace s1 @ [Mmap (min ?W (file_size - ?off)) ?off,
                                    Mincore ?off (min ?W (file_size - ?off)),
                                    Warn ''failed to do mincore'' name]"
            "stdout s2 = stdout s1"
    using loop_mincore_fail [OF off0 lt fs63 ps b(1) m' bad' e, of npw name 0 False ?c s1] by auto
  have "min (int j * npw) (ceil_div file_size pagesize) = int j * npw"
    using window_count_step(2) [OF ps npw(1) j] by simp
  then have "fincore_fd npw os fd name pagesize file_size 0 s
             = Some (Inr (- errno_after_warn os e, resident_pages os fd 0 (int j * npw), s2))"
    using pre step window_size_id [OF r] by (simp add: fincore_fd_def)
  then show ?thesis using s1 s2 by (auto simp: window_len_def)
qed

section \<open>Where a scan stops\<close>

lemma window_events_filters:
  "filter is_warn (concat (map (window_events npw pagesize file_size) is)) = []"
  "filter is_mmap (concat (map (window_events npw pagesize file_size) is))
   = map (\<lambda>i. Mmap (window_len npw pagesize file_size i) (window_offset npw pagesize i)) is"
  by (induction "is") (simp_all add: window_events_def)

lemma first_bad_window:
  "(\<forall>i<n. P i) \<or> (\<exists>j<n. (\<forall>i<j. P i) \<and> \<not> P j)" for n :: nat
proof (cases "\<forall>i<n. P i")
  case True
  then show ?thesis by simp
next
  case False
  then obtain k where k: "k < n" "\<not> P k" by auto
  define j where "j = (LEAST i. \<not> P i)"
  have "\<not> P j" unfolding j_def using k(2) by (rule LeastI)
  moreover have "j \<le> k" unfolding j_def using k(2) by (rule Least_le)
  moreover have "\<forall>i<j. P i"
    unfolding j_def using not_less_Least by blast
  ultimately have "j < n \<and> (\<forall>i<j. P i) \<and> \<not> P j" using k(1) by simp
  then show ?thesis by blast
qed

lemma fincore_fd_window_fails:
  assumes r: "in_range npw os pagesize file_size"
    and wf: "errno_positive os"
    and j: "j < num_windows npw pagesize file_size"
    and ok: "\<forall>i<j. window_ok npw os fd pagesize file_size i"
    and bad: "\<not> window_ok npw os fd pagesize file_size j"
  shows "\<exists>rc s'. fincore_fd npw os fd name pagesize file_size 0 s
                  = Some (Inr (rc, resident_pages os fd 0 (int j * npw), s'))
               \<and> rc \<noteq> 0 \<and> stdout s' = stdout s"
proof (cases "mmap_errno os fd (window_len npw pagesize file_size j) (window_offset npw pagesize j)")
  case (Some e)
  have "- EINVAL \<noteq> 0" by (simp add: EINVAL_def)
  then show ?thesis
    using fincore_fd_mmap_fail [OF r j ok Some, of name s] by blast
next
  case None
  then obtain e where e: "mincore_errno os fd (window_offset npw pagesize j)
                            (window_len npw pagesize file_size j) = Some e"
    using bad by (auto simp: window_ok_def)
  then have "0 < e \<and> e < 2 ^ 31"
    using wf by (auto simp: errno_positive_def)
  then have pos: "0 < errno_after_warn os e" "errno_after_warn os e < 2 ^ 31"
    using wf by (auto simp: errno_positive_def errno_after_warn_def split: option.splits)
  then have "- errno_after_warn os e \<noteq> 0" by simp
  then show ?thesis
    using fincore_fd_mincore_fail [OF r j ok None e pos, of name s] by blast
qed

lemma fincore_fd_returns_zero:
  assumes r: "in_range npw os pagesize file_size"
    and wf: "errno_positive os"
    and ret: "fincore_fd npw os fd name pagesize file_size 0 s = Some (Inr (0, c, s'))"
  shows "c = resident_pages os fd 0 (ceil_div file_size pagesize)"
    and "\<forall>i<num_windows npw pagesize file_size. window_ok npw os fd pagesize file_size i"
proof -
  show ok: "\<forall>i<num_windows npw pagesize file_size. window_ok npw os fd pagesize file_size i"
  proof (rule ccontr)
    assume "\<not> ?thesis"
    then obtain j where j: "j < num_windows npw pagesize file_size"
        "\<forall>i<j. window_ok npw os fd pagesize file_size i"
        "\<not> window_ok npw os fd pagesize file_size j"
      using first_bad_window [of "num_windows npw pagesize file_size"
                                 "window_ok npw os fd pagesize file_size"] by auto
    from fincore_fd_window_fails [OF r wf j, of name s] ret show False by auto
  qed
  from fincore_fd_success [OF r ok, of name s] ret
  show "c = resident_pages os fd 0 (ceil_div file_size pagesize)" by auto
qed

lemma windows_consecutive:
  assumes ps: "0 < pagesize" and npw: "0 < npw"
    and i: "i < num_windows npw pagesize file_size"
  shows "0 < window_len npw pagesize file_size i"
    and "window_offset npw pagesize i + window_len npw pagesize file_size i
         = (if Suc i < num_windows npw pagesize file_size
            then window_offset npw pagesize (Suc i) else file_size)"
proof -
  let ?W = "npw * pagesize"
  have W: "0 < ?W" using ps npw by simp
  have lt: "window_offset npw pagesize i < file_size"
    using i lt_num_windows [OF npw ps, of i file_size] by simp
  then show "0 < window_len npw pagesize file_size i"
    using W by (simp add: window_len_def)
  have nxt: "window_offset npw pagesize (Suc i) = window_offset npw pagesize i + ?W"
    by (simp add: window_offset_def algebra_simps)
  show "window_offset npw pagesize i + window_len npw pagesize file_size i
         = (if Suc i < num_windows npw pagesize file_size
            then window_offset npw pagesize (Suc i) else file_size)"
  proof (cases "Suc i < num_windows npw pagesize file_size")
    case True
    then have "window_offset npw pagesize (Suc i) < file_size"
      using lt_num_windows [OF npw ps, of "Suc i" file_size] by simp
    then show ?thesis using True nxt by (simp add: window_len_def)
  next
    case False
    then have "\<not> window_offset npw pagesize (Suc i) < file_size"
      using lt_num_windows [OF npw ps, of "Suc i" file_size] by simp
    then show ?thesis using False nxt by (simp add: window_len_def)
  qed
qed

lemma windows_of_remainder:
  assumes ps: "0 < pagesize" and npw: "0 < npw" and fs: "0 \<le> file_size"
    and kr: "file_size = k * (npw * pagesize) + r" "0 < r" "r < npw * pagesize"
  shows "num_windows npw pagesize file_size = nat k + 1"
    and "window_len npw pagesize file_size (nat k) = r"
proof -
  let ?W = "npw * pagesize"
  have W: "0 < ?W" using ps npw by simp
  have k0: "0 \<le> k"
  proof (rule ccontr)
    assume "\<not> 0 \<le> k"
    then have "k \<le> - 1" by simp
    then have "k * ?W \<le> - 1 * ?W"
      using W by (intro mult_right_mono) simp_all
    then show False using kr fs by simp
  qed
  have "ceil_div file_size ?W = k + ceil_div r ?W"
    unfolding kr(1) using W by (rule ceil_div_add_mult)
  moreover have "ceil_div r ?W = 1"
    using W kr(2,3) ceil_div_small [of ?W r] by simp
  ultimately show "num_windows npw pagesize file_size = nat k + 1"
    using k0 by (simp add: num_windows_def nat_add_distrib)
  show "window_len npw pagesize file_size (nat k) = r"
    using k0 kr by (simp add: window_len_def window_offset_def)
qed

lemma fincore_fd_sum_of_windows:
  assumes r: "in_range npw os pagesize file_size"
  shows "(\<Sum>i<num_windows npw pagesize file_size. window_count npw os fd pagesize file_size i)
         = resident_pages os fd 0 (ceil_div file_size pagesize)"
proof -
  from r have ps: "0 < pagesize" and npw: "0 < npw" and fs: "0 \<le> file_size"
    by (simp_all add: in_range_def)
  show ?thesis
    using window_count_sum [OF ps npw order_refl, where os = os and fd = fd and file_size = file_size]
      pages_covered [OF ps npw fs] by simp
qed

section \<open>The scan where no machine integer wraps around\<close>

text \<open>
  On the inputs of \<open>in_range\<close>, when every window of the file can be mapped and queried,
  \<open>fincore_fd\<close> returns 0 and leaves in \<open>count_incore\<close> (0 on entry) the number of pages
  \<open>p\<close> with \<open>0 \<le> p < \<lceil>file_size / pagesize\<rceil>\<close> whose byte in the answer of \<open>mincore\<close>
  has its residency bit set; 256 for an all-resident file of 1 MiB with 4 KiB pages.
\<close>

lemma scan_counts_resident_pages_in_range:
  assumes "in_range N_PAGES_IN_WINDOW os pagesize file_size"
    and "\<forall>i<num_windows N_PAGES_IN_WINDOW pagesize file_size.
           window_ok N_PAGES_IN_WINDOW os fd pagesize file_size i"
  shows "\<exists>s'. fincore_fd N_PAGES_IN_WINDOW os fd name pagesize file_size 0 s
               = Some (Inr (0, (\<Sum>p = 0..<\<lceil>real_of_int file_size / real_of_int pagesize\<rceil>.
                                   flag (page_byte os fd p)), s'))"
proof -
  from assms(1) have "0 < pagesize" by (simp add: in_range_def)
  then have "ceil_div file_size pagesize = \<lceil>real_of_int file_size / real_of_int pagesize\<rceil>"
    by (rule ceil_div_ceiling)
  then show ?thesis
    using fincore_fd_success [OF assms, of name s] by (auto simp: resident_pages_def)
qed

lemma scan_counts_resident_pages_in_range_example:
  "in_range N_PAGES_IN_WINDOW all_resident 4096 1048576
   \<and> (\<exists>s'. fincore_fd N_PAGES_IN_WINDOW all_resident ''f'' ''f'' 4096 1048576 0 init_state
              = Some (Inr (0, 256, s')))"
proof -
  have r: "in_range N_PAGES_IN_WINDOW all_resident 4096 1048576"
    by (simp add: in_range_def N_PAGES_IN_WINDOW_def all_resident_def)
  have ok: "\<forall>i<num_windows N_PAGES_IN_WINDOW 4096 1048576.
              window_ok N_PAGES_IN_WINDOW all_resident ''f'' 4096 1048576 i"
    by (simp add: window_ok_def all_resident_def)
  have "(\<Sum>p = 0..<\<lceil>real_of_int 1048576 / real_of_int 4096\<rceil>.
            flag (page_byte all_resident ''f'' p)) = 256"
    by (simp add: all_resident_def flag_def)
  then show ?thesis
    using r scan_counts_resident_pages_in_range [OF r ok, of "''f''" init_state] by simp
qed

text \<open>
  On the inputs of \<open>in_range\<close>, when every window can be mapped and queried, the system
  calls of \<open>fincore_fd\<close> are those of the windows \<open>0, 1, \<dots>\<close> in this order, window \<open>i\<close>
  starting at offset \<open>i * capacity\<close> with the length \<open>min capacity (file_size - offset)\<close>,
  where \<open>capacity\<close> is \<open>N_PAGES_IN_WINDOW * pagesize\<close>. Every window is non-empty and ends
  where the next one starts, the last one at \<open>file_size\<close>. For
  \<open>file_size = k * capacity + r\<close> with \<open>0 < r < capacity\<close> there are \<open>k + 1\<close> windows and the
  last has length \<open>r\<close>. The count returned is the sum of the counts of the windows, and the
  scan with any other number of pages per window returns the same count.
\<close>

lemma windows_partition_file_in_range:
  assumes "in_range N_PAGES_IN_WINDOW os pagesize file_size"
    and "\<forall>i<num_windows N_PAGES_IN_WINDOW pagesize file_size.
           window_ok N_PAGES_IN_WINDOW os fd pagesize file_size i"
  shows "\<exists>c s'. fincore_fd N_PAGES_IN_WINDOW os fd name pagesize file_size 0 s
                 = Some (Inr (0, c, s'))
     \<and> trace s' = trace s @ concat (map (window_events N_PAGES_IN_WINDOW pagesize file_size)
                                       [0..<num_windows N_PAGES_IN_WINDOW pagesize file_size])
     \<and> (\<forall>i<num_windows N_PAGES_IN_WINDOW pagesize file_size.
           0 < window_len N_PAGES_IN_WINDOW pagesize file_size i
           \<and> window_offset N_PAGES_IN_WINDOW pagesize i
               + window_len N_PAGES_IN_WINDOW pagesize file_size i
              = (if Suc i < num_windows N_PAGES_IN_WINDOW pagesize file_size
                 then window_offset N_PAGES_IN_WINDOW pagesize (Suc i) else file_size))
     \<and> (\<forall>k r. file_size = k * (N_PAGES_IN_WINDOW * pagesize) + r \<and> 0 < r
                \<and> r < N_PAGES_IN_WINDOW * pagesize
           \<longrightarrow> num_windows N_PAGES_IN_WINDOW pagesize file_size = nat k + 1
               \<and> window_len N_PAGES_IN_WINDOW pagesize file_size (nat k) = r)
     \<and> c = (\<Sum>i<num_windows N_PAGES_IN_WINDOW pagesize file_size.
               window_count N_PAGES_IN_WINDOW os fd pagesize file_size i)
     \<and> (\<forall>npw. in_range npw os pagesize file_size
                \<and> (\<forall>i<num_windows npw pagesize file_size.
                      window_ok npw os fd pagesize file_size i)
           \<longrightarrow> (\<exists>s''. fincore_fd npw os fd name pagesize file_size 0 s
                         = Some (Inr (0, c, s''))))"
proof -
  let ?N = "N_PAGES_IN_WINDOW"
  let ?c = "resident_pages os fd 0 (ceil_div file_size pagesize)"
  from assms(1) have ps: "0 < pagesize" and npw: "0 < ?N" and fs: "0 \<le> file_size"
    by (simp_all add: in_range_def)
  obtain s' where ret: "fincore_fd ?N os fd name pagesize file_size 0 s = Some (Inr (0, ?c, s'))"
    and tr: "trace s' = trace s @ concat (map (window_events ?N pagesize file_size)
                                            [0..<num_windows ?N pagesize file_size])"
    using fincore_fd_success [OF assms, of name s] by auto
  have part: "\<forall>i<num_windows ?N pagesize file_size.
           0 < window_len ?N pagesize file_size i
           \<and> window_offset ?N pagesize i + window_len ?N pagesize file_size i
              = (if Suc i < num_windows ?N pagesize file_size
                 then window_offset ?N pagesize (Suc i) else file_size)"
    using windows_consecutive [OF ps npw] by blast
  have rem: "\<forall>k r. file_size = k * (?N * pagesize) + r \<and> 0 < r \<and> r < ?N * pagesize
           \<longrightarrow> num_windows ?N pagesize file_size = nat k + 1
               \<and> window_len ?N pagesize file_size (nat k) = r"
    using windows_of_remainder [OF ps npw fs] by blast
  have sum: "?c = (\<Sum>i<num_windows ?N pagesize file_size.
                     window_count ?N os fd pagesize file_size i)"
    using fincore_fd_sum_of_windows [OF assms(1), of fd] by simp
  have other: "\<forall>npw. in_range npw os pagesize file_size
                \<and> (\<forall>i<num_windows npw pagesize file_size.
                      window_ok npw os fd pagesize file_size i)
           \<longrightarrow> (\<exists>s''. fincore_fd npw os fd name pagesize file_size 0 s
                         = Some (Inr (0, ?c, s'')))"
    using fincore_fd_success [of _ os pagesize file_size fd name s] by blast
  show ?thesis
    using ret tr part rem sum other by blast
qed

lemma windows_partition_file_in_range_example:
  "\<exists>s' s''. fincore_fd N_PAGES_IN_WINDOW all_resident ''f'' ''f'' 4096 134217826 0 init_state
              = Some (Inr (0, 32769, s'))
     \<and> trace s' = [Mmap 134217728 0, Mincore 0 134217728, Munmap 0 134217728,
                    Mmap 98 134217728, Mincore 134217728 98, Munmap 134217728 98]
     \<and> num_windows N_PAGES_IN_WINDOW 4096 134217826 = 2
     \<and> window_len N_PAGES_IN_WINDOW 4096 134217826 1 = 98
     \<and> fincore_fd 1 all_resident ''f'' ''f'' 4096 134217826 0 init_state
         = Some (Inr (0, 32769, s''))"
proof -
  let ?N = "N_PAGES_IN_WINDOW"
  have r: "in_range ?N all_resident 4096 134217826"
    by (simp add: in_range_def N_PAGES_IN_WINDOW_def all_resident_def)
  have ok: "\<forall>i<num_windows ?N 4096 134217826. window_ok ?N all_resident ''f'' 4096 134217826 i"
    by (simp add: window_ok_def all_resident_def)
  have r1: "in_range 1 all_resident 4096 134217826"
    by (simp add: in_range_def all_resident_def)
  have ok1: "\<forall>i<num_windows 1 4096 134217826. window_ok 1 all_resident ''f'' 4096 134217826 i"
    by (simp add: window_ok_def all_resident_def)
  have kr: "(134217826::int) = 1 * (?N * 4096) + 98 \<and> (0::int) < 98 \<and> 98 < ?N * 4096"
    by (simp add: N_PAGES_IN_WINDOW_def)
  from windows_partition_file_in_range [OF r ok, of "''f''" init_state]
  obtain c s' where ret: "fincore_fd ?N all_resident ''f'' ''f'' 4096 134217826 0 init_state
        = Some (Inr (0, c, s'))"
    and tr: "trace s' = trace init_state @ concat (map (window_events ?N 4096 134217826)
                                       [0..<num_windows ?N 4096 134217826])"
    and rem: "\<forall>k r. 134217826 = k * (?N * 4096) + r \<and> 0 < r \<and> r < ?N * 4096
           \<longrightarrow> num_windows ?N 4096 134217826 = nat k + 1
               \<and> window_len ?N 4096 134217826 (nat k) = r"
    and sum: "c = (\<Sum>i<num_windows ?N 4096 134217826.
                     window_count ?N all_resident ''f'' 4096 134217826 i)"
    and other: "\<forall>npw. in_range npw all_resident 4096 134217826
                \<and> (\<forall>i<num_windows npw 4096 134217826.
                      window_ok npw all_resident ''f'' 4096 134217826 i)
           \<longrightarrow> (\<exists>s''. fincore_fd npw all_resident ''f'' ''f'' 4096 134217826 0 init_state
                         = Some (Inr (0, c, s'')))"
    by blast
  from rem kr have nw: "num_windows ?N 4096 134217826 = nat 1 + 1"
    and wl: "window_len ?N 4096 134217826 (nat 1) = 98"
    by blast+
  have nw2: "num_windows ?N 4096 134217826 = Suc (Suc 0)"
    using nw by simp
  have c: "c = 32769"
    unfolding sum nw2
    by (simp add: window_count_def window_offset_def window_len_def resident_pages_def flag_def
        ceil_div_def all_resident_def N_PAGES_IN_WINDOW_def)
  have tr': "trace s' = [Mmap 134217728 0, Mincore 0 134217728, Munmap 0 134217728,
                    Mmap 98 134217728, Mincore 134217728 98, Munmap 134217728 98]"
    unfolding tr nw2
    by (simp add: window_events_def window_offset_def window_len_def init_state_def
        N_PAGES_IN_WINDOW_def)
  from other r1 ok1 obtain s'' where
    "fincore_fd 1 all_resident ''f'' ''f'' 4096 134217826 0 init_state = Some (Inr (0, c, s''))"
    by blast
  then show ?thesis
    using ret c tr' nw2 wl by auto
qed

text \<open>
  On the inputs of \<open>in_range\<close>, when \<open>mincore\<close> fails with error code \<open>e\<close> for window \<open>j\<close>
  of a file whose earlier windows went through, \<open>fincore_fd\<close> returns the negated value
  that \<open>errno\<close> has after \<open>warn\<close>, which is \<open>e\<close> when stderr can be written; the windows
  it has mapped are the windows 0 to \<open>j\<close> and no later one, and the call of \<open>warn\<close> is the
  last thing it does.
\<close>

lemma mincore_failure_aborts_scan:
  assumes "in_range N_PAGES_IN_WINDOW os pagesize file_size"
    and "j < num_windows N_PAGES_IN_WINDOW pagesize file_size"
    and "\<forall>i<j. window_ok N_PAGES_IN_WINDOW os fd pagesize file_size i"
    and "mmap_errno os fd (window_len N_PAGES_IN_WINDOW pagesize file_size j)
           (window_offset N_PAGES_IN_WINDOW pagesize j) = None"
    and "mincore_errno os fd (window_offset N_PAGES_IN_WINDOW pagesize j)
           (window_len N_PAGES_IN_WINDOW pagesize file_size j) = Some e"
    and "0 < errno_after_warn os e" "errno_after_warn os e < 2 ^ 31"
  shows "\<exists>c s' new. fincore_fd N_PAGES_IN_WINDOW os fd name pagesize file_size 0 s
                     = Some (Inr (- errno_after_warn os e, c, s'))
          \<and> trace s' = trace s @ new
          \<and> filter is_mmap new
              = map (\<lambda>i. Mmap (window_len N_PAGES_IN_WINDOW pagesize file_size i)
                               (window_offset N_PAGES_IN_WINDOW pagesize i)) [0..<Suc j]
          \<and> filter is_warn new = [Warn ''failed to do mincore'' name]
          \<and> last new = Warn ''failed to do mincore'' name"
proof -
  let ?new = "concat (map (window_events N_PAGES_IN_WINDOW pagesize file_size) [0..<j])
              @ [Mmap (window_len N_PAGES_IN_WINDOW pagesize file_size j)
                      (window_offset N_PAGES_IN_WINDOW pagesize j),
                 Mincore (window_offset N_PAGES_IN_WINDOW pagesize j)
                         (window_len N_PAGES_IN_WINDOW pagesize file_size j),
                 Warn ''failed to do mincore'' name]"
  obtain s' where ret: "fincore_fd N_PAGES_IN_WINDOW os fd name pagesize file_size 0 s
        = Some (Inr (- errno_after_warn os e, resident_pages os fd 0 (int j * N_PAGES_IN_WINDOW), s'))"
    and tr: "trace s' = trace s @ ?new"
    using fincore_fd_mincore_fail [OF assms, of name s] by auto
  have "filter is_mmap ?new
        = map (\<lambda>i. Mmap (window_len N_PAGES_IN_WINDOW pagesize file_size i)
                         (window_offset N_PAGES_IN_WINDOW pagesize i)) [0..<Suc j]"
    by (simp add: window_events_filters)
  moreover have "filter is_warn ?new = [Warn ''failed to do mincore'' name]"
    by (simp add: window_events_filters)
  moreover have "last ?new = Warn ''failed to do mincore'' name"
    by simp
  ultimately show ?thesis using ret tr by blast
qed

lemma mincore_failure_aborts_scan_example:
  "\<exists>c s'. fincore_fd N_PAGES_IN_WINDOW second_window_unqueryable ''f'' ''f'' 4096 134217826 0
             init_state
            = Some (Inr (- 12, c, s'))
        \<and> filter is_mmap (trace s') = [Mmap 134217728 0, Mmap 98 134217728]
        \<and> filter is_warn (trace s') = [Warn ''failed to do mincore'' ''f'']"
proof -
  have r: "in_range N_PAGES_IN_WINDOW second_window_unqueryable 4096 134217826"
    by (simp add: in_range_def N_PAGES_IN_WINDOW_def second_window_unqueryable_def)
  have j: "1 < num_windows N_PAGES_IN_WINDOW 4096 134217826"
    by (simp add: num_windows_def ceil_div_def N_PAGES_IN_WINDOW_def)
  have ok: "\<forall>i<1. window_ok N_PAGES_IN_WINDOW second_window_unqueryable ''f'' 4096 134217826 i"
    by (simp add: window_ok_def window_offset_def second_window_unqueryable_def)
  have m: "mmap_errno second_window_unqueryable ''f''
               (window_len N_PAGES_IN_WINDOW 4096 134217826 1)
               (window_offset N_PAGES_IN_WINDOW 4096 1) = None"
    by (simp add: second_window_unqueryable_def)
  have bad: "mincore_errno second_window_unqueryable ''f''
               (window_offset N_PAGES_IN_WINDOW 4096 1)
               (window_len N_PAGES_IN_WINDOW 4096 134217826 1) = Some 12"
    by (simp add: window_offset_def N_PAGES_IN_WINDOW_def second_window_unqueryable_def)
  have e: "0 < errno_after_warn second_window_unqueryable 12"
    "errno_after_warn second_window_unqueryable 12 < 2 ^ 31"
    by (simp_all add: errno_after_warn_def second_window_unqueryable_def)
  have two: "[0..<Suc 1] = [0, 1]" by (simp add: upt_rec)
  from mincore_failure_aborts_scan [OF r j ok m bad e, of "''f''" init_state]
  show ?thesis
    by (auto simp: two init_state_def window_len_def window_offset_def N_PAGES_IN_WINDOW_def
        errno_after_warn_def second_window_unqueryable_def)
qed

section \<open>The scan of a small file with 64 KiB pages\<close>

text \<open>
  With \<open>pagesize = 65536\<close> the window size is \<open>2 ^ 64 - 2 ^ 31 = 18446744071562067968\<close>. The
  first round of the loop handles the whole file; the file offset is \<open>- 2 ^ 31\<close> afterwards,
  which is below \<open>file_size\<close>, so that a second round follows.
\<close>

lemma first_round_64k:
  "\<exists>s1. fincore_fd_loop N_PAGES_IN_WINDOW negative_offset_refused ''f'' ''f'' 65536 4194
          18446744071562067968 0 0 False 0 init_state
        = fincore_fd_loop N_PAGES_IN_WINDOW negative_offset_refused ''f'' ''f'' 65536 4194
          18446744071562067968 (- 2147483648) 0 False 1 s1
      \<and> trace s1 = [Mmap 4194 0, Mincore 0 4194, Munmap 0 4194] \<and> stdout s1 = []"
proof -
  let ?os = "negative_offset_refused"
  let ?s0 = "init_state\<lparr>trace := trace init_state @ [Mmap 4194 0]\<rparr>"
  have n: "do_mincore_n 4194 65536 = 1"
    by (simp add: do_mincore_n_def to_size_t_def to_int_def)
  obtain s1 where mc: "mincore N_PAGES_IN_WINDOW ?os (''f'', 0) 4194 ?s0 = Inr (0, s1)"
    and s1: "vec s1 0 = 1" "trace s1 = [Mmap 4194 0, Mincore 0 4194]" "stdout s1 = []"
    by (simp add: mincore_def negative_offset_refused_def N_PAGES_IN_WINDOW_def Let_def
        init_state_def)
  have cl: "count_loop N_PAGES_IN_WINDOW 1 (vec s1) 0 = Inr ((vec s1)(0 := 0), 1)"
    using s1(1) by (simp add: count_loop.simps N_PAGES_IN_WINDOW_def to_off_t_def)
  have dm: "do_mincore N_PAGES_IN_WINDOW ?os (''f'', 0) 4194 ''f'' 65536 0 ?s0
            = Inr (0, 1, s1\<lparr>vec := (vec s1)(0 := 0)\<rparr>)"
    by (simp add: do_mincore_def n mc cl to_size_t_def)
  have len: "to_size_t (to_off_t 4194) = 4194"
    by (simp add: to_size_t_def to_off_t_def)
  have mm: "mmap ?os 4194 ''f'' 0 init_state = (Some (''f'', 0), ?s0)"
    by (simp add: mmap_def negative_offset_refused_def)
  have nxt: "to_off_t (to_size_t (to_size_t 0 + 18446744071562067968)) = - 2147483648"
    by (simp add: to_size_t_def to_off_t_def)
  have "fincore_fd_loop N_PAGES_IN_WINDOW ?os ''f'' ''f'' 65536 4194
          18446744071562067968 0 0 False 0 init_state
        = fincore_fd_loop N_PAGES_IN_WINDOW ?os ''f'' ''f'' 65536 4194
          18446744071562067968 (- 2147483648) 0 False 1
          (munmap (''f'', 0) 4194 (s1\<lparr>vec := (vec s1)(0 := 0)\<rparr>))"
    by (subst fincore_fd_loop.simps) (simp add: len mm dm nxt)
  then show ?thesis using s1 by (auto simp: munmap_def)
qed

lemma second_round_64k:
  "fincore_fd_loop N_PAGES_IN_WINDOW negative_offset_refused ''f'' ''f'' 65536 4194
          18446744071562067968 (- 2147483648) 0 False 1 s1
   = Some (Inr (- 22, 1, warn negative_offset_refused ''failed to do mmap'' ''f''
                           (s1\<lparr>trace := trace s1 @ [Mmap 2147487842 (- 2147483648)],
                               errno := 75\<rparr>)))"
proof -
  have len: "to_size_t (to_off_t 2147487842) = 2147487842"
    by (simp add: to_size_t_def to_off_t_def)
  have rc: "to_int (- EINVAL) = - 22"
    by (simp add: to_int_def EINVAL_def)
  have m: "mmap negative_offset_refused 2147487842 ''f'' (- 2147483648) s1
           = (None, s1\<lparr>trace := trace s1 @ [Mmap 2147487842 (- 2147483648)], errno := 75\<rparr>)"
    by (simp add: mmap_def negative_offset_refused_def)
  show ?thesis
    by (subst fincore_fd_loop.simps) (simp add: len rc m)
qed

section \<open>The claims\<close>

text \<open>
  C1. With 64 KiB pages the scan of a file of 4194 bytes does not return the number of its
  resident pages, although the one window of the file is mapped and queried without
  failure and its one resident page is counted: the product \<open>N_PAGES_IN_WINDOW * pagesize\<close>
  does not fit \<open>int\<close>, the file offset after the first window is \<open>- 2 ^ 31\<close>, the loop goes on
  to map at this offset, the kernel refuses, and \<open>fincore_fd\<close> returns \<open>- EINVAL\<close>; \<open>main\<close>
  reports the file as failed.
\<close>

theorem scan_fails_with_64k_pages:
  "num_windows N_PAGES_IN_WINDOW 65536 4194 = 1
   \<and> window_ok N_PAGES_IN_WINDOW negative_offset_refused ''f'' 65536 4194 0
   \<and> (\<exists>s'. fincore_fd N_PAGES_IN_WINDOW negative_offset_refused ''f'' ''f'' 65536 4194 0
               init_state = Some (Inr (- 22, 1, s')))
   \<and> (\<exists>s'. main N_PAGES_IN_WINDOW negative_offset_refused [''f'']
               = Some (Inr (EXIT_FAILURE, s')) \<and> stdout s' = [Failed ''f''])"
proof -
  let ?os = "negative_offset_refused"
  have nw: "num_windows N_PAGES_IN_WINDOW 65536 4194 = 1"
    by (simp add: num_windows_def ceil_div_def N_PAGES_IN_WINDOW_def)
  have ok: "window_ok N_PAGES_IN_WINDOW ?os ''f'' 65536 4194 0"
    by (simp add: window_ok_def window_offset_def negative_offset_refused_def)
  have w: "to_size_t (to_int (N_PAGES_IN_WINDOW * 65536)) = 18446744071562067968"
    by (simp add: to_size_t_def to_int_def N_PAGES_IN_WINDOW_def)
  obtain s1 where
    r1: "fincore_fd_loop N_PAGES_IN_WINDOW ?os ''f'' ''f'' 65536 4194
           18446744071562067968 0 0 False 0 init_state
         = fincore_fd_loop N_PAGES_IN_WINDOW ?os ''f'' ''f'' 65536 4194
           18446744071562067968 (- 2147483648) 0 False 1 s1"
    and s1: "stdout s1 = []"
    using first_round_64k by blast
  let ?s2 = "warn ?os ''failed to do mmap'' ''f''
               (s1\<lparr>trace := trace s1 @ [Mmap 2147487842 (- 2147483648)], errno := 75\<rparr>)"
  have fd: "fincore_fd N_PAGES_IN_WINDOW ?os ''f'' ''f'' 65536 4194 0 init_state
            = Some (Inr (- 22, 1, ?s2))"
    unfolding fincore_fd_def w r1 by (rule second_round_64k)
  have out: "stdout ?s2 = []"
    using s1 by (simp add: warn_def)
  have "main N_PAGES_IN_WINDOW ?os [''f'']
        = Some (Inr (EXIT_FAILURE, report_failure ''f'' ?s2))"
    using fd by (simp add: main_def fincore_name_def negative_offset_refused_def to_int_def)
  moreover have "stdout (report_failure ''f'' ?s2) = [Failed ''f'']"
    using out by (simp add: report_failure_def)
  ultimately show ?thesis
    using nw ok fd by blast
qed

text \<open>
  C2. For a file of size 0 that can be opened and stat'ed, \<open>fincore_name\<close> returns 0 with
  the count 0 and leaves the state as it was: no window is mapped and nothing is warned
  about. \<open>fincore_fd\<close> itself does the same on \<open>file_size = 0\<close>, whatever the page size,
  and \<open>main\<close> reports the count 0 and exits with \<open>EXIT_SUCCESS\<close>.
\<close>

theorem empty_file_counts_zero:
  assumes "open_errno os name = None" "fstat_errno os name = None" "st_size os name = 0"
  shows "fincore_name N_PAGES_IN_WINDOW os name pagesize sb 0 s = Some (Inr (0, Some 0, 0, s))
       \<and> fincore_fd N_PAGES_IN_WINDOW os fd name pagesize 0 c s = Some (Inr (0, c, s))
       \<and> main N_PAGES_IN_WINDOW os [name]
           = Some (Inr (EXIT_SUCCESS, init_state\<lparr>stdout := [Count 0 (Some 0) name]\<rparr>))"
proof -
  have n: "fincore_name N_PAGES_IN_WINDOW os name pagesize sb 0 s = Some (Inr (0, Some 0, 0, s))"
    for pagesize sb s
    using assms by (simp add: fincore_name_def)
  have "fincore_fd N_PAGES_IN_WINDOW os fd name pagesize 0 c s = Some (Inr (0, c, s))"
    unfolding fincore_fd_def by (rule loop_done) simp
  then show ?thesis
    using n by (simp add: main_def report_count_def init_state_def)
qed

theorem empty_file_counts_zero_witness:
  "fincore_name N_PAGES_IN_WINDOW empty_files ''e'' 4096 None 0 init_state
     = Some (Inr (0, Some 0, 0, init_state))
   \<and> main N_PAGES_IN_WINDOW empty_files [''e'']
     = Some (Inr (EXIT_SUCCESS, init_state\<lparr>stdout := [Count 0 (Some 0) ''e'']\<rparr>))"
proof -
  have "open_errno empty_files ''e'' = None" "fstat_errno empty_files ''e'' = None"
       "st_size empty_files ''e'' = 0"
    by (simp_all add: empty_files_def)
  from empty_file_counts_zero [OF this, of 4096 None init_state] show ?thesis by simp
qed

text \<open>
  C3. With 64 KiB pages the windows are not those of the claim. The capacity
  \<open>N_PAGES_IN_WINDOW * pagesize\<close> is \<open>2 ^ 31\<close>; a file of \<open>1 * 2 ^ 31 + 1\<close> bytes should have
  two windows, the first of \<open>2 ^ 31\<close> bytes, but the first \<open>mmap\<close> asks for all 2147483649
  bytes. A file of 4194 bytes should have one window; after it the loop asks for a second
  one of 2147487842 bytes at the offset \<open>- 2 ^ 31\<close>.
\<close>

theorem windows_wrong_with_64k_pages:
  "(2147483649::int) = 1 * (N_PAGES_IN_WINDOW * 65536) + 1
   \<and> fincore_fd N_PAGES_IN_WINDOW unmappable_64k ''f'' ''f'' 65536 2147483649 0 init_state
       = Some (Inr (- 22, 0,
                    \<lparr>vec = (\<lambda>_. 0), errno = 12,
                     trace = [Mmap 2147483649 0, Warn ''failed to do mmap'' ''f''],
                     stdout = []\<rparr>))
   \<and> (\<exists>s'. fincore_fd N_PAGES_IN_WINDOW negative_offset_refused ''f'' ''f'' 65536 4194 0
               init_state = Some (Inr (- 22, 1, s'))
          \<and> trace s' = [Mmap 4194 0, Mincore 0 4194, Munmap 0 4194,
                         Mmap 2147487842 (- 2147483648), Warn ''failed to do mmap'' ''f''])"
proof -
  have w: "to_size_t (to_int (N_PAGES_IN_WINDOW * 65536)) = 18446744071562067968"
    by (simp add: to_size_t_def to_int_def N_PAGES_IN_WINDOW_def)
  have kr: "(2147483649::int) = 1 * (N_PAGES_IN_WINDOW * 65536) + 1"
    by (simp add: N_PAGES_IN_WINDOW_def)
  have len: "to_size_t (to_off_t 2147483649) = 2147483649"
    by (simp add: to_size_t_def to_off_t_def)
  have rc: "to_int (- EINVAL) = - 22"
    by (simp add: to_int_def EINVAL_def)
  have big: "fincore_fd N_PAGES_IN_WINDOW unmappable_64k ''f'' ''f'' 65536 2147483649 0 init_state
       = Some (Inr (- 22, 0,
                    \<lparr>vec = (\<lambda>_. 0), errno = 12,
                     trace = [Mmap 2147483649 0, Warn ''failed to do mmap'' ''f''],
                     stdout = []\<rparr>))"
    unfolding fincore_fd_def w
    by (subst fincore_fd_loop.simps)
      (simp add: len rc mmap_def warn_def unmappable_64k_def init_state_def)
  obtain s1 where
    r1: "fincore_fd_loop N_PAGES_IN_WINDOW negative_offset_refused ''f'' ''f'' 65536 4194
           18446744071562067968 0 0 False 0 init_state
         = fincore_fd_loop N_PAGES_IN_WINDOW negative_offset_refused ''f'' ''f'' 65536 4194
           18446744071562067968 (- 2147483648) 0 False 1 s1"
    and s1: "trace s1 = [Mmap 4194 0, Mincore 0 4194, Munmap 0 4194]"
    using first_round_64k by blast
  let ?s2 = "warn negative_offset_refused ''failed to do mmap'' ''f''
               (s1\<lparr>trace := trace s1 @ [Mmap 2147487842 (- 2147483648)], errno := 75\<rparr>)"
  have small: "fincore_fd N_PAGES_IN_WINDOW negative_offset_refused ''f'' ''f'' 65536 4194 0
                 init_state = Some (Inr (- 22, 1, ?s2))"
    unfolding fincore_fd_def w r1 by (rule second_round_64k)
  have "trace ?s2 = [Mmap 4194 0, Mincore 0 4194, Munmap 0 4194,
                     Mmap 2147487842 (- 2147483648), Warn ''failed to do mmap'' ''f'']"
    using s1 by (simp add: warn_def)
  then show ?thesis
    using kr big small by blast
qed



text \<open>
  C5. When \<open>fincore_fd\<close> returns 0, the count it leaves (from 0 on entry) lies between 0
  and \<open>\<lceil>file_size / pagesize\<rceil>\<close>; on the inputs of \<open>in_range\<close>, with positive error
  codes.
\<close>

theorem count_within_bounds:
  assumes "in_range N_PAGES_IN_WINDOW os pagesize file_size"
    and "errno_positive os"
    and "fincore_fd N_PAGES_IN_WINDOW os fd name pagesize file_size 0 s = Some (Inr (0, c, s'))"
  shows "0 \<le> c \<and> c \<le> \<lceil>real_of_int file_size / real_of_int pagesize\<rceil>"
proof -
  from assms(1) have ps: "0 < pagesize" and fs: "0 \<le> file_size"
    by (simp_all add: in_range_def)
  have c: "c = resident_pages os fd 0 (ceil_div file_size pagesize)"
    using assms by (rule fincore_fd_returns_zero(1))
  have "0 \<le> ceil_div file_size pagesize"
    using ps fs by (rule ceil_div_nonneg)
  then have "resident_pages os fd 0 (ceil_div file_size pagesize) \<le> ceil_div file_size pagesize - 0"
    by (rule resident_pages_bounds)
  moreover have "0 \<le> resident_pages os fd 0 (ceil_div file_size pagesize)"
    by (rule resident_pages_bounds)
  ultimately show ?thesis
    using c ceil_div_ceiling [OF ps, of file_size] by simp
qed

theorem count_within_bounds_witness:
  "\<exists>c s'. fincore_fd N_PAGES_IN_WINDOW all_resident ''f'' ''f'' 4096 1048576 0 init_state
            = Some (Inr (0, c, s')) \<and> 0 \<le> c \<and> c \<le> 256"
proof -
  have r: "in_range N_PAGES_IN_WINDOW all_resident 4096 1048576"
    by (simp add: in_range_def N_PAGES_IN_WINDOW_def all_resident_def)
  have wf: "errno_positive all_resident"
    by (simp add: errno_positive_def all_resident_def)
  have ok: "\<forall>i<num_windows N_PAGES_IN_WINDOW 4096 1048576.
              window_ok N_PAGES_IN_WINDOW all_resident ''f'' 4096 1048576 i"
    by (simp add: window_ok_def all_resident_def)
  obtain s' where ret: "fincore_fd N_PAGES_IN_WINDOW all_resident ''f'' ''f'' 4096 1048576 0 init_state
      = Some (Inr (0, resident_pages all_resident ''f'' 0 (ceil_div 1048576 4096), s'))"
    using fincore_fd_success [OF r ok, of "''f''" init_state] by auto
  from count_within_bounds [OF r wf ret] ret show ?thesis by auto
qed



text \<open>
  C7. When stderr cannot be written, the value \<open>fincore_fd\<close> returns after a failing
  \<open>mincore\<close> is not the error code of \<open>mincore\<close>: \<open>do_mincore\<close> reads \<open>errno\<close> after \<open>warn\<close>,
  which has stored the error code of its failed write there. Here \<open>mincore\<close> fails with
  code 12 and \<open>fincore_fd\<close> returns \<open>- 9\<close>.
\<close>

theorem mincore_errno_lost_when_stderr_fails:
  "mincore_errno unqueryable_stderr_closed ''f'' 0 4194 = Some 12
   \<and> fincore_fd N_PAGES_IN_WINDOW unqueryable_stderr_closed ''f'' ''f'' 4096 4194 0 init_state
       = Some (Inr (- 9, 0,
                    \<lparr>vec = (\<lambda>_. 0), errno = 9,
                     trace = [Mmap 4194 0, Mincore 0 4194,
                              Warn ''failed to do mincore'' ''f''],
                     stdout = []\<rparr>))"
proof -
  have w: "to_size_t (to_int (N_PAGES_IN_WINDOW * 4096)) = 134217728"
    by (simp add: to_size_t_def to_int_def N_PAGES_IN_WINDOW_def)
  have len: "to_size_t (to_off_t 4194) = 4194"
    by (simp add: to_size_t_def to_off_t_def)
  have mm: "mmap unqueryable_stderr_closed 4194 ''f'' 0 s
            = (Some (''f'', 0), s\<lparr>trace := trace s @ [Mmap 4194 0]\<rparr>)" for s
    by (simp add: mmap_def unqueryable_stderr_closed_def)
  have dm: "do_mincore N_PAGES_IN_WINDOW unqueryable_stderr_closed (''f'', 0) 4194 ''f'' 4096 0 s
            = Inr (- 9, 0, s\<lparr>trace := trace s @ [Mincore 0 4194,
                                                   Warn ''failed to do mincore'' ''f''],
                               errno := 9\<rparr>)" for s
    by (simp add: do_mincore_def mincore_def warn_def to_size_t_def to_int_def Let_def
        unqueryable_stderr_closed_def)
  have "fincore_fd N_PAGES_IN_WINDOW unqueryable_stderr_closed ''f'' ''f'' 4096 4194 0 init_state
       = Some (Inr (- 9, 0,
                    \<lparr>vec = (\<lambda>_. 0), errno = 9,
                     trace = [Mmap 4194 0, Mincore 0 4194,
                              Warn ''failed to do mincore'' ''f''],
                     stdout = []\<rparr>))"
    unfolding fincore_fd_def w
    by (subst fincore_fd_loop.simps) (simp add: len mm dm init_state_def)
  then show ?thesis
    by (simp add: unqueryable_stderr_closed_def)
qed

text \<open>
  C8. A file that cannot be opened: \<open>fincore_name\<close> warns and returns 0, so \<open>main\<close> prints
  a count line for it (count 0, with the size read from a \<open>struct stat\<close> that nothing was
  stored in) and exits with \<open>EXIT_SUCCESS\<close>.
\<close>

theorem open_failure_reported_as_success:
  "main N_PAGES_IN_WINDOW missing_file [''missing'']
   = Some (Inr (EXIT_SUCCESS,
                \<lparr>vec = (\<lambda>_. 0), errno = 2, trace = [Warn ''failed to open'' ''missing''],
                 stdout = [Count 0 None ''missing'']\<rparr>))"
  by (simp add: main_def fincore_name_def missing_file_def warn_def report_count_def
      init_state_def)



text \<open>
  C10. With 64 KiB pages the product \<open>N_PAGES_IN_WINDOW * pagesize\<close> is \<open>2 ^ 31\<close>, which
  does not fit \<open>int\<close>: the window size becomes \<open>2 ^ 64 - 2 ^ 31\<close>, a file of 2 GiB and one
  byte is mapped as one window of that length, \<open>n\<close> is 32769, and \<open>mincore\<close> stores 32769
  bytes into the vector of 32768.
\<close>

theorem window_exceeds_vec_with_64k_pages:
  "to_size_t (to_int (N_PAGES_IN_WINDOW * 65536)) = 2 ^ 64 - 2 ^ 31
   \<and> do_mincore_n 2147483649 65536 = 32769
   \<and> N_PAGES_IN_WINDOW < do_mincore_n 2147483649 65536
   \<and> fincore_fd N_PAGES_IN_WINDOW pages_64k ''f'' ''f'' 65536 2147483649 0 init_state
       = Some (Inl VecOutOfBounds)"
proof -
  have w: "to_size_t (to_int (N_PAGES_IN_WINDOW * 65536)) = 2 ^ 64 - 2 ^ 31"
    by (simp add: to_size_t_def to_int_def N_PAGES_IN_WINDOW_def)
  have n: "do_mincore_n 2147483649 65536 = 32769"
    by (simp add: do_mincore_n_def to_size_t_def to_int_def)
  have len: "to_size_t (to_off_t 2147483649) = 2147483649"
    by (simp add: to_size_t_def to_off_t_def)
  have m: "mincore N_PAGES_IN_WINDOW pages_64k (''f'', 0) 2147483649 s = Inl VecOutOfBounds" for s
    by (simp add: mincore_def pages_64k_def N_PAGES_IN_WINDOW_def Let_def)
  have "do_mincore N_PAGES_IN_WINDOW pages_64k (''f'', 0) 2147483649 ''f'' 65536 0 s
        = Inl VecOutOfBounds" for s
    by (simp add: do_mincore_def m to_size_t_def)
  then have "fincore_fd N_PAGES_IN_WINDOW pages_64k ''f'' ''f'' 65536 2147483649 0 init_state
             = Some (Inl VecOutOfBounds)"
    unfolding fincore_fd_def w
    by (subst fincore_fd_loop.simps) (simp add: len mmap_def pages_64k_def Let_def)
  then show ?thesis using w n by (simp add: N_PAGES_IN_WINDOW_def)
qed

end
